theory Spec2Isabelle
  imports Main "HOL-Library.List_Lexorder" "HOL-Library.Option_ord"
begin

section \<open>Data model\<close>

text \<open>
  A Python \<open>str\<close> whose characters the program looks at (the content of a message, a
  search query) is the list of its code points: \<^const>\<open>length\<close> is Python's \<open>len\<close>, and
  the lexicographic order of \<open>List_Lexorder\<close> is the order in which Python compares
  strings. \<open>str_of\<close> writes such a string as a literal. Identifiers, the sender and
  timestamp strings are only compared or searched for the letter \<open>Z\<close>; they are kept as
  literals of type \<^typ>\<open>string\<close>.
\<close>

type_synonym code_point = nat

type_synonym str = "code_point list"

definition str_of :: "string \<Rightarrow> str" where
  "str_of s = map of_char s"

text \<open>
  A \<open>datetime\<close> object: its calendar fields, counted in microseconds, and its \<open>tzinfo\<close>,
  \<open>None\<close> for a naive object and the UTC offset otherwise. A \<open>DateTime\<close> column keeps
  the calendar fields and drops the offset: what is read back is naive.
\<close>

record datetime =
  wall_clock :: int
  utcoffset :: "int option"

type_synonym naive_datetime = int

definition stored_datetime :: "datetime \<Rightarrow> naive_datetime" where
  "stored_datetime d = wall_clock d"

text \<open>The exceptions the code can raise.\<close>

datatype error = ValueError | IntegrityError | ValidationError | OverflowError

text \<open>
  A timestamp as it arrives in a message dictionary: the key is missing or \<open>None\<close>, it
  holds a \<open>datetime\<close> object, or it holds a string.
\<close>

datatype timestamp_value = NoneValue | Datetime datetime | IsoString string

text \<open>The metadata dictionary built by \<open>process_message\<close>: \<open>{"length": .., "bad_words": ..}\<close>.\<close>

record metadata_dict =
  length_meta :: nat
  bad_words_meta :: "str list"

text \<open>
  The message dictionary handled by the service and the repository. \<open>processed_at\<close> and
  \<open>metadata\<close> are absent (\<open>NoneValue\<close>, \<open>None\<close>) until \<open>process_message\<close> adds them.
\<close>

record message_dict =
  message_id :: string
  session_id :: string
  content :: str
  timestamp :: timestamp_value
  sender :: string
  processed_at :: timestamp_value
  metadata :: "metadata_dict option"

text \<open>models.py, \<open>MessageIn\<close>: the validated request model.\<close>

record MessageIn =
  in_message_id :: string
  in_session_id :: string
  in_content :: str
  in_timestamp :: datetime
  in_sender :: string

text \<open>
  models.py, \<open>MessageORM\<close>: a row of the table \<open>messages\<close> as it is read from the
  database. It has exactly these six columns; the two \<open>DateTime\<close> columns may hold NULL.
\<close>

record MessageORM =
  orm_message_id :: string
  orm_session_id :: string
  orm_content :: str
  orm_timestamp :: "naive_datetime option"
  orm_sender :: string
  orm_processed_at :: "naive_datetime option"

text \<open>
  The database behind the session of a repository: the rows of the table \<open>messages\<close> in
  insertion order, and the statements that have been executed against it, oldest first.
\<close>

datatype statement = INSERT | SELECT

record database =
  messages :: "MessageORM list"
  executed :: "statement list"

text \<open>The argument of the service methods: a \<open>MessageIn\<close> model or a plain dictionary.\<close>

datatype message_arg = Model MessageIn | Dict message_dict

section \<open>Characters\<close>

text \<open>
  What the interpreter's Unicode database says beyond the code points written out
  below: the class \<open>\w\<close> of the code points from 256 on, and \<open>str.lower\<close> of the strings
  that hold a code point from 256 on other than U+0130 and U+0131. It is an argument of
  every function that consults it.
\<close>

record unicode_data =
  word_class :: "code_point \<Rightarrow> bool"
  str_lower :: "str \<Rightarrow> str"

text \<open>
  \<open>\w\<close> of a \<open>str\<close> pattern: on the code points below 256 the alphanumeric characters
  of the Unicode database and the underscore.
\<close>

definition is_word_char :: "unicode_data \<Rightarrow> code_point \<Rightarrow> bool" where
  "is_word_char u n =
     (if n < 256 then
        (48 \<le> n \<and> n \<le> 57) \<or> (65 \<le> n \<and> n \<le> 90) \<or> n = 95 \<or> (97 \<le> n \<and> n \<le> 122) \<or>
        n = 170 \<or> n = 178 \<or> n = 179 \<or> n = 181 \<or> n = 185 \<or> n = 186 \<or>
        (188 \<le> n \<and> n \<le> 190) \<or> (192 \<le> n \<and> n \<le> 214) \<or> (216 \<le> n \<and> n \<le> 246) \<or>
        248 \<le> n
      else word_class u n)"

text \<open>
  \<open>str.lower\<close>. On a code point below 256, \<open>A\<close>..\<open>Z\<close> and the capital letters 192..222
  (but the multiplication sign 215) move up by 32; U+0130, the capital I with a dot,
  becomes \<open>i\<close> followed by the combining dot U+0307; U+0131, the dotless i, stays. A
  string of such code points is lowered code point by code point.
\<close>

definition lower_char :: "code_point \<Rightarrow> str" where
  "lower_char n =
     (if (65 \<le> n \<and> n \<le> 90) \<or> (192 \<le> n \<and> n \<le> 222 \<and> n \<noteq> 215) then [n + 32]
      else if n = 304 then [105, 775]
      else [n])"

definition lower :: "unicode_data \<Rightarrow> str \<Rightarrow> str" where
  "lower u s =
     (if list_all (\<lambda>n. n < 256 \<or> n = 304 \<or> n = 305) s then concat (map lower_char s)
      else str_lower u s)"

text \<open>\<open>str.isspace\<close>: the code points that \<open>str.strip()\<close> removes.\<close>

definition is_space :: "code_point \<Rightarrow> bool" where
  "is_space n =
     ((9 \<le> n \<and> n \<le> 13) \<or> (28 \<le> n \<and> n \<le> 32) \<or> n = 133 \<or> n = 160 \<or> n = 5760 \<or>
      (8192 \<le> n \<and> n \<le> 8202) \<or> n = 8232 \<or> n = 8233 \<or> n = 8239 \<or> n = 8287 \<or> n = 12288)"

definition strip :: "str \<Rightarrow> str" where
  "strip s = rev (dropWhile is_space (rev (dropWhile is_space s)))"

section \<open>The censoring pattern\<close>

text \<open>
  services.py, \<open>process_message\<close>, compiles
  \<^verbatim>\<open>re.compile(r"\b(" + "|".join(map(re.escape, self.bad_words)) + r")\b", re.IGNORECASE)\<close>.
  The alternatives are the words of the set \<open>self.bad_words\<close> in the order in which
  Python happens to iterate the set, so the functions below take that order as the list
  \<open>ws\<close>. The scanner reads the subject from left to right; \<open>prev\<close> says whether the
  character before the current position is a word character (\<open>False\<close> at the start).
\<close>

definition bad_words :: "str set" where
  "bad_words = {str_of ''tonto'', str_of ''idiota''}"

definition mask :: str where
  "mask = str_of ''***''"

text \<open>\<open>\b\<close>: exactly one of the characters before and after the position is a word character.\<close>

definition word_boundary :: "unicode_data \<Rightarrow> bool \<Rightarrow> str \<Rightarrow> bool" where
  "word_boundary u prev s =
     (prev \<noteq> (case s of [] \<Rightarrow> False | c # _ \<Rightarrow> is_word_char u c))"

text \<open>
  A pattern character \<open>p\<close> against a subject character \<open>c\<close> under \<open>re.IGNORECASE\<close>, for
  \<open>p\<close> a small letter \<open>a\<close>..\<open>z\<close> or an ASCII character that is no letter (the words of the
  service are written in small ASCII letters). A small letter matches itself and its
  capital; beyond these, \<open>i\<close> matches U+0130 and U+0131, \<open>k\<close> the Kelvin sign U+212A and
  \<open>s\<close> the long s U+017F.
\<close>

definition ignorecase_matches :: "code_point \<Rightarrow> code_point \<Rightarrow> bool" where
  "ignorecase_matches p c =
     (c = p \<or> (97 \<le> p \<and> p \<le> 122 \<and> c + 32 = p) \<or>
      (p = 105 \<and> (c = 304 \<or> c = 305)) \<or> (p = 107 \<and> c = 8490) \<or> (p = 115 \<and> c = 383))"

text \<open>A literal word under \<open>re.IGNORECASE\<close> at the head of \<open>s\<close>.\<close>

definition literal_matches :: "str \<Rightarrow> str \<Rightarrow> bool" where
  "literal_matches w s =
     (length w \<le> length s \<and> list_all2 ignorecase_matches w (take (length w) s))"

text \<open>
  One alternative of the group between the two \<open>\b\<close>: the boundary before, the word,
  and the boundary after the matched text.
\<close>

definition alternative_matches :: "unicode_data \<Rightarrow> str \<Rightarrow> bool \<Rightarrow> str \<Rightarrow> bool" where
  "alternative_matches u w prev s =
     (let m = take (length w) s in
        word_boundary u prev s \<and> literal_matches w s \<and>
        word_boundary u (if m = [] then prev else is_word_char u (last m)) (drop (length w) s))"

text \<open>
  The whole pattern at the head of \<open>s\<close>: the alternatives are tried in order, and an
  alternative whose closing \<open>\b\<close> fails is given up for the next one. The result is the
  text of group 1.
\<close>

fun match_at :: "unicode_data \<Rightarrow> str list \<Rightarrow> bool \<Rightarrow> str \<Rightarrow> str option" where
  "match_at u [] prev s = None"
| "match_at u (w # ws) prev s =
     (if alternative_matches u w prev s then Some (take (length w) s)
      else match_at u ws prev s)"

text \<open>
  \<open>pattern.sub("***", original)\<close>: every match, found from left to right without
  overlap, is replaced by the mask. None of the service's words is empty; an empty match
  would be replaced and the scan resumed one character later.
\<close>

function pattern_sub :: "unicode_data \<Rightarrow> str list \<Rightarrow> bool \<Rightarrow> str \<Rightarrow> str" where
  "pattern_sub u ws prev [] = []"
| "pattern_sub u ws prev (c # cs) =
     (case match_at u ws prev (c # cs) of
        None \<Rightarrow> c # pattern_sub u ws (is_word_char u c) cs
      | Some m \<Rightarrow>
          if m = [] then mask @ c # pattern_sub u ws (is_word_char u c) cs
          else mask @ pattern_sub u ws (is_word_char u (last m)) (drop (length m) (c # cs)))"
  by pat_completeness auto
termination
  by (relation "measure (\<lambda>(u, ws, prev, s). length s)") auto

text \<open>\<open>pattern.findall(original)\<close>: the texts of group 1 of the same matches, in order.\<close>

function pattern_findall :: "unicode_data \<Rightarrow> str list \<Rightarrow> bool \<Rightarrow> str \<Rightarrow> str list" where
  "pattern_findall u ws prev [] = []"
| "pattern_findall u ws prev (c # cs) =
     (case match_at u ws prev (c # cs) of
        None \<Rightarrow> pattern_findall u ws (is_word_char u c) cs
      | Some m \<Rightarrow>
          if m = [] then m # pattern_findall u ws (is_word_char u c) cs
          else m # pattern_findall u ws (is_word_char u (last m)) (drop (length m) (c # cs)))"
  by pat_completeness auto
termination
  by (relation "measure (\<lambda>(u, ws, prev, s). length s)") auto

section \<open>services.py: the message service\<close>

definition model_dump :: "MessageIn \<Rightarrow> message_dict" where
  "model_dump m =
     \<lparr>message_id = in_message_id m, session_id = in_session_id m, content = in_content m,
      timestamp = Datetime (in_timestamp m), sender = in_sender m,
      processed_at = NoneValue, metadata = None\<rparr>"

fun ensure_dict :: "message_arg \<Rightarrow> message_dict" where
  "ensure_dict (Model m) = model_dump m"
| "ensure_dict (Dict d) = d"

text \<open>
  \<open>process_message\<close>. \<open>ws\<close> is the iteration order of \<open>self.bad_words\<close> and \<open>now\<close> the
  value of \<open>datetime.now(timezone.utc)\<close>. \<open>found\<close> is a Python set, and
  \<open>sorted(list(found))\<close> its elements in ascending order.
\<close>

definition process_message ::
  "unicode_data \<Rightarrow> str list \<Rightarrow> datetime \<Rightarrow> message_arg \<Rightarrow> message_dict" where
  "process_message u ws now message =
     (let data = ensure_dict message;
          original = content data;
          found = set (map (lower u) (pattern_findall u ws False original));
          censored = pattern_sub u ws False original;
          metadata' = \<lparr>length_meta = length original,
                       bad_words_meta = sorted_list_of_set found\<rparr>
      in data\<lparr>content := censored, metadata := Some metadata',
              processed_at := Datetime now\<rparr>)"

section \<open>repositories.py: the message repository\<close>

text \<open>\<open>s.replace(old, new)\<close> for a one-character \<open>old\<close>: every occurrence is replaced.\<close>

definition replace :: "char \<Rightarrow> string \<Rightarrow> string \<Rightarrow> string" where
  "replace old new s = concat (map (\<lambda>c. if c = old then new else [c]) s)"

definition endswith :: "string \<Rightarrow> char \<Rightarrow> bool" where
  "endswith s c = (s \<noteq> [] \<and> last s = c)"

text \<open>
  \<open>_parse_iso_to_dt\<close>. \<open>datetime.fromisoformat\<close> belongs to the Python library: it is the
  argument \<open>fromisoformat\<close>, which parses a string or raises.
\<close>

definition parse_iso_to_dt ::
  "(string \<Rightarrow> error + datetime) \<Rightarrow> timestamp_value \<Rightarrow> error + datetime option" where
  "parse_iso_to_dt fromisoformat value =
     (case value of
        NoneValue \<Rightarrow> Inr None
      | Datetime d \<Rightarrow> Inr (Some d)
      | IsoString s \<Rightarrow>
          (case fromisoformat (if endswith s CHR ''Z'' then replace CHR ''Z'' ''+00:00'' s else s) of
             Inl e \<Rightarrow> Inl e
           | Inr d \<Rightarrow> Inr (Some d)))"

text \<open>
  \<open>MessageRepository.save\<close>. The two timestamps are parsed first, before anything is
  sent to the database. \<open>db.add\<close> and \<open>db.commit\<close> then execute the insertion; the primary
  key \<open>message_id\<close> makes it raise \<open>IntegrityError\<close>, the table staying as it was, when
  the key is already there. After a successful commit \<open>db.refresh\<close> reads the row back,
  and this row is returned: its two \<open>DateTime\<close> columns hold what the database stored.
  The result is the outcome and the database after the call.
\<close>

definition repository_save ::
  "(string \<Rightarrow> error + datetime) \<Rightarrow> database \<Rightarrow> message_dict \<Rightarrow>
   (error + MessageORM) \<times> database" where
  "repository_save fromisoformat db message_data =
     (case parse_iso_to_dt fromisoformat (timestamp message_data) of
        Inl e \<Rightarrow> (Inl e, db)
      | Inr ts \<Rightarrow>
          (case parse_iso_to_dt fromisoformat (processed_at message_data) of
             Inl e \<Rightarrow> (Inl e, db)
           | Inr processed \<Rightarrow>
               (let obj = \<lparr>orm_message_id = message_id message_data,
                           orm_session_id = session_id message_data,
                           orm_content = content message_data,
                           orm_timestamp = map_option stored_datetime ts,
                           orm_sender = sender message_data,
                           orm_processed_at = map_option stored_datetime processed\<rparr>
                in if orm_message_id obj \<in> set (map orm_message_id (messages db))
                   then (Inl IntegrityError, db\<lparr>executed := executed db @ [INSERT]\<rparr>)
                   else (Inr obj,
                         db\<lparr>messages := messages db @ [obj],
                            executed := executed db @ [INSERT, SELECT]\<rparr>))))"

text \<open>
  The query clauses, as SQLite, the database of the repository's tests, has them.
  \<open>ORDER BY timestamp ASC\<close> sorts by the column (NULL first), keeping rows of equal
  timestamp in table order. The offset and the limit are bound as 64-bit integers: a
  Python \<open>int\<close> outside that range raises \<open>OverflowError\<close>. A negative offset skips
  nothing and a negative limit is no limit.
\<close>

definition order_by_timestamp_asc :: "MessageORM list \<Rightarrow> MessageORM list" where
  "order_by_timestamp_asc rows = sort_key orm_timestamp rows"

definition sql_offset :: "int \<Rightarrow> 'a list \<Rightarrow> error + 'a list" where
  "sql_offset n rows =
     (if n < - (2 ^ 63) \<or> 2 ^ 63 \<le> n then Inl OverflowError
      else if n < 0 then Inr rows else Inr (drop (nat n) rows))"

definition sql_limit :: "int \<Rightarrow> 'a list \<Rightarrow> error + 'a list" where
  "sql_limit n rows =
     (if n < - (2 ^ 63) \<or> 2 ^ 63 \<le> n then Inl OverflowError
      else if n < 0 then Inr rows else Inr (take (nat n) rows))"

text \<open>
  Running a \<open>SELECT\<close> with its offset and limit: a statement whose parameters cannot be
  bound is not executed.
\<close>

definition run_select ::
  "database \<Rightarrow> int \<Rightarrow> int \<Rightarrow> MessageORM list \<Rightarrow> (error + MessageORM list) \<times> database" where
  "run_select db limit offset rows =
     (case sql_offset offset (order_by_timestamp_asc rows) of
        Inl e \<Rightarrow> (Inl e, db)
      | Inr skipped \<Rightarrow>
          (case sql_limit limit skipped of
             Inl e \<Rightarrow> (Inl e, db)
           | Inr results \<Rightarrow> (Inr results, db\<lparr>executed := executed db @ [SELECT]\<rparr>)))"

text \<open>\<open>get_by_session\<close>: the sender filter is added only when \<open>sender\<close> is truthy.\<close>

definition repository_get_by_session ::
  "database \<Rightarrow> string \<Rightarrow> int \<Rightarrow> int \<Rightarrow> string option \<Rightarrow>
   (error + MessageORM list) \<times> database" where
  "repository_get_by_session db session_id' limit offset sender' =
     (let query = filter (\<lambda>r. orm_session_id r = session_id') (messages db);
          query' = (case sender' of
                      None \<Rightarrow> query
                    | Some s \<Rightarrow> if s = [] then query else filter (\<lambda>r. orm_sender r = s) query)
      in run_select db limit offset query')"

text \<open>
  \<open>content.ilike(pattern)\<close> is \<open>lower(content) LIKE lower(pattern)\<close>. In a \<open>LIKE\<close>
  pattern \<open>%\<close> (code point 37) stands for any run of characters and \<open>_\<close> (95) for any
  one character; SQLite's \<open>lower\<close> folds the letters \<open>A\<close>..\<open>Z\<close> only.
\<close>

definition sql_lower :: "str \<Rightarrow> str" where
  "sql_lower s = map (\<lambda>n. if 65 \<le> n \<and> n \<le> 90 then n + 32 else n) s"

fun like :: "str \<Rightarrow> str \<Rightarrow> bool" where
  "like [] [] = True"
| "like (c # cs) [] = False"
| "like [] (p # ps) = (p = 37 \<and> like [] ps)"
| "like (c # cs) (p # ps) =
     (if p = 37 then like (c # cs) ps \<or> like cs (p # ps)
      else (p = 95 \<or> p = c) \<and> like cs ps)"

definition ilike :: "str \<Rightarrow> str \<Rightarrow> bool" where
  "ilike column pattern = like (sql_lower column) (sql_lower pattern)"

definition repository_search_messages ::
  "database \<Rightarrow> string \<Rightarrow> str \<Rightarrow> int \<Rightarrow> int \<Rightarrow> (error + MessageORM list) \<times> database" where
  "repository_search_messages db session_id' query limit offset =
     run_select db limit offset
       (filter (\<lambda>r. orm_session_id r = session_id' \<and>
                     ilike (orm_content r) (str_of ''%'' @ query @ str_of ''%''))
          (messages db))"

section \<open>services.py: saving and reading through the repository\<close>

text \<open>
  The service holds its repository as \<open>self.repository\<close>, and the repository its
  database session: the methods take the database and return it with the result.
\<close>

definition save_message ::
  "unicode_data \<Rightarrow> str list \<Rightarrow> datetime \<Rightarrow> (string \<Rightarrow> error + datetime) \<Rightarrow> database \<Rightarrow>
   message_arg \<Rightarrow> (error + MessageORM) \<times> database" where
  "save_message u ws now fromisoformat db message_data =
     (let md = ensure_dict message_data;
          processed = process_message u ws now (Dict md);
          saved = repository_save fromisoformat db processed
      in saved)"

definition get_messages ::
  "database \<Rightarrow> string \<Rightarrow> int \<Rightarrow> int \<Rightarrow> string option \<Rightarrow>
   (error + MessageORM list) \<times> database" where
  "get_messages db session_id' limit offset sender' =
     repository_get_by_session db session_id' limit offset sender'"

definition search_messages ::
  "database \<Rightarrow> string \<Rightarrow> str \<Rightarrow> int \<Rightarrow> int \<Rightarrow> (error + MessageORM list) \<times> database" where
  "search_messages db session_id' query limit offset =
     (if query = [] \<or> length (strip query) < 2 then (Inl ValueError, db)
      else repository_search_messages db session_id' query limit offset)"

section \<open>models.py and main.py: validation and the create endpoint\<close>

definition validate_sender :: "string \<Rightarrow> error + string" where
  "validate_sender v = (if v \<notin> {''user'', ''system''} then Inl ValidationError else Inr v)"

text \<open>Building a \<open>MessageIn\<close> runs the field validator of \<open>sender\<close>.\<close>

definition MessageIn_init ::
  "string \<Rightarrow> string \<Rightarrow> str \<Rightarrow> datetime \<Rightarrow> string \<Rightarrow> error + MessageIn" where
  "MessageIn_init mid sid c ts s =
     (case validate_sender s of
        Inl e \<Rightarrow> Inl e
      | Inr v \<Rightarrow> Inr \<lparr>in_message_id = mid, in_session_id = sid, in_content = c,
                      in_timestamp = ts, in_sender = v\<rparr>)"

datatype dict_value = StrValue string | TextValue str | IsoFormat naive_datetime | NullValue

definition to_dict :: "MessageORM \<Rightarrow> (string \<times> dict_value) list" where
  "to_dict r =
     [(''message_id'', StrValue (orm_message_id r)),
      (''session_id'', StrValue (orm_session_id r)),
      (''content'', TextValue (orm_content r)),
      (''timestamp'', case orm_timestamp r of Some t \<Rightarrow> IsoFormat t | None \<Rightarrow> NullValue),
      (''sender'', StrValue (orm_sender r)),
      (''processed_at'', case orm_processed_at r of Some t \<Rightarrow> IsoFormat t | None \<Rightarrow> NullValue)]"

datatype response = Success "(string \<times> dict_value) list" | HttpError nat

text \<open>
  \<open>create_message\<close>: the request body becomes a \<open>MessageIn\<close> before the handler runs (a
  body that fails validation is answered with 422), the handler saves it through a
  service built on the request's repository, and an exception of the save is answered
  with 400 for \<open>IntegrityError\<close> and with 500 otherwise. The request is taken to carry
  the right API key; the key check of auth.py is not part of the model.
\<close>

definition create_message ::
  "unicode_data \<Rightarrow> str list \<Rightarrow> (string \<Rightarrow> error + datetime) \<Rightarrow> datetime \<Rightarrow> database \<Rightarrow>
   string \<Rightarrow> string \<Rightarrow> str \<Rightarrow> datetime \<Rightarrow> string \<Rightarrow> response \<times> database" where
  "create_message u ws fromisoformat now db mid sid c ts s =
     (case MessageIn_init mid sid c ts s of
        Inl e \<Rightarrow> (HttpError 422, db)
      | Inr message \<Rightarrow>
          (case save_message u ws now fromisoformat db (Model message) of
             (Inr saved, db') \<Rightarrow> (Success (to_dict saved), db')
           | (Inl e, db') \<Rightarrow>
               (if e = IntegrityError then HttpError 400 else HttpError 500, db')))"

section \<open>Reference notions of the specification\<close>

text \<open>
  The full listing of a session as the specification describes it: the rows of the
  session, of the given sender when there is one, in ascending order of timestamp.
\<close>

definition session_sequence ::
  "MessageORM list \<Rightarrow> string \<Rightarrow> string option \<Rightarrow> MessageORM list" where
  "session_sequence rows sid sender' =
     sort_key orm_timestamp
       (filter (\<lambda>r. orm_session_id r = sid \<and>
                     (case sender' of None \<Rightarrow> True | Some s \<Rightarrow> orm_sender r = s)) rows)"

text \<open>\<open>t\<close> is a substring of \<open>s\<close>: it stands in \<open>s\<close> at some position.\<close>

definition is_substring :: "str \<Rightarrow> str \<Rightarrow> bool" where
  "is_substring t s =
     (\<exists>i \<in> {0..length s}. take (length t) (drop i s) = t \<and> i + length t \<le> length s)"

text \<open>The message of the specification's save scenario, with timestamp \<open>T\<close>.\<close>

definition scenario_message :: "datetime \<Rightarrow> MessageIn" where
  "scenario_message T =
     \<lparr>in_message_id = ''m1'', in_session_id = ''s1'',
      in_content = str_of ''Hola tonto idiota'', in_timestamp = T, in_sender = ''user''\<rparr>"

text \<open>
  Censoring as the specification describes it, position by position. A position of the
  content is a word boundary when exactly one of the characters before and after it is
  a word character. A forbidden word occurs at a position when the content reads the
  word there, letter case aside (each character is the letter of the word or its
  capital), between two word boundaries. The censored text has the mask where an
  occurrence starts, nothing at the other positions of an occurrence, and the character
  of the content everywhere else.
\<close>

definition is_word_at :: "unicode_data \<Rightarrow> str \<Rightarrow> nat \<Rightarrow> bool" where
  "is_word_at u c i = (i < length c \<and> is_word_char u (c ! i))"

definition word_before :: "unicode_data \<Rightarrow> str \<Rightarrow> nat \<Rightarrow> bool" where
  "word_before u c i = (0 < i \<and> is_word_at u c (i - 1))"

definition boundary_at :: "unicode_data \<Rightarrow> str \<Rightarrow> nat \<Rightarrow> bool" where
  "boundary_at u c i = (word_before u c i \<noteq> is_word_at u c i)"

definition same_letter :: "code_point \<Rightarrow> code_point \<Rightarrow> bool" where
  "same_letter p x = (x = p \<or> x + 32 = p)"

definition occurs_at :: "unicode_data \<Rightarrow> str \<Rightarrow> nat \<Rightarrow> str \<Rightarrow> bool" where
  "occurs_at u c i w =
     (i + length w \<le> length c \<and> list_all2 same_letter w (take (length w) (drop i c)) \<and>
      boundary_at u c i \<and> boundary_at u c (i + length w))"

definition starts_occurrence :: "unicode_data \<Rightarrow> str \<Rightarrow> nat \<Rightarrow> bool" where
  "starts_occurrence u c i = (\<exists>w \<in> bad_words. occurs_at u c i w)"

definition inside_occurrence :: "unicode_data \<Rightarrow> str \<Rightarrow> nat \<Rightarrow> bool" where
  "inside_occurrence u c i =
     (\<exists>j \<in> {0..<i}. \<exists>w \<in> bad_words. occurs_at u c j w \<and> i < j + length w)"

definition censored_at :: "unicode_data \<Rightarrow> str \<Rightarrow> nat \<Rightarrow> str" where
  "censored_at u c i =
     (if starts_occurrence u c i then mask
      else if inside_occurrence u c i then [] else [c ! i])"

definition censored :: "unicode_data \<Rightarrow> str \<Rightarrow> str" where
  "censored u c = concat (map (censored_at u c) [0..<length c])"

text \<open>The forbidden words that occur in the content.\<close>

definition words_found :: "unicode_data \<Rightarrow> str \<Rightarrow> str set" where
  "words_found u c = {w \<in> bad_words. \<exists>i \<in> {0..<length c}. occurs_at u c i w}"

section \<open>Auxiliary facts\<close>

lemma str_of_simps: "str_of [] = []" "str_of (c # cs) = of_char c # str_of cs"
  by (simp_all add: str_of_def)

lemma replace_no_occurrence: "old \<notin> set s \<Longrightarrow> replace old new s = s"
  by (induction s) (auto simp: replace_def)

lemma replace_append: "replace old new (s @ t) = replace old new s @ replace old new t"
  by (simp add: replace_def)

lemma filter_filter_conj: "filter P (filter Q xs) = filter (\<lambda>x. Q x \<and> P x) xs"
  by (induction xs) auto

lemma two_orders:
  assumes "set ws = {a, b}" "distinct ws" "a \<noteq> b"
  shows "ws = [a, b] \<or> ws = [b, a]"
proof -
  have "length ws = 2"
    using assms distinct_card [of ws] by simp
  then obtain x y where "ws = [x, y]"
    by (cases ws; cases "tl ws") auto
  with assms show ?thesis by auto
qed

lemma run_select_in_range:
  assumes "0 \<le> limit" and "limit < 2 ^ 63" and "0 \<le> offset" and "offset < 2 ^ 63"
  shows "run_select db limit offset rows =
     (Inr (take (nat limit) (drop (nat offset) (order_by_timestamp_asc rows))),
      db\<lparr>executed := executed db @ [SELECT]\<rparr>)"
  using assms by (simp add: run_select_def sql_offset_def sql_limit_def)

lemma run_select_executed:
  assumes "- (2 ^ 63) \<le> limit" and "limit < 2 ^ 63"
    and "- (2 ^ 63) \<le> offset" and "offset < 2 ^ 63"
  shows "executed (snd (run_select db limit offset rows)) = executed db @ [SELECT]"
  using assms by (simp add: run_select_def sql_offset_def sql_limit_def)

section \<open>The search query check of the service\<close>

text \<open>
  C6. \<open>MessageService.search_messages\<close> raises \<open>ValueError\<close> (the InvalidQuery condition)
  for every query whose stripped length is below 2, the empty and the all-blank query
  included, and the database is then as it was before the call: no statement has been
  executed. For every other query the call is the repository's search for the same
  session, the query as given, the limit and the offset; with a limit and an offset
  that the database accepts it executes one \<open>SELECT\<close>.
\<close>

theorem search_messages_validates_query:
  "(length (strip query) < 2 \<longrightarrow>
      search_messages db sid query limit offset = (Inl ValueError, db)) \<and>
   (2 \<le> length (strip query) \<longrightarrow>
      search_messages db sid query limit offset =
        repository_search_messages db sid query limit offset) \<and>
   (2 \<le> length (strip query) \<and> - (2 ^ 63) \<le> limit \<and> limit < 2 ^ 63 \<and>
    - (2 ^ 63) \<le> offset \<and> offset < 2 ^ 63 \<longrightarrow>
      executed (snd (search_messages db sid query limit offset)) = executed db @ [SELECT])"
proof -
  have ne: "query \<noteq> []" if "2 \<le> length (strip query)"
    using that by (auto simp: strip_def)
  have a: "search_messages db sid query limit offset = (Inl ValueError, db)"
    if "length (strip query) < 2"
    using that by (simp add: search_messages_def)
  have b: "search_messages db sid query limit offset =
        repository_search_messages db sid query limit offset"
    if "2 \<le> length (strip query)"
    using that ne by (simp add: search_messages_def)
  have c: "executed (snd (search_messages db sid query limit offset)) = executed db @ [SELECT]"
    if "2 \<le> length (strip query)" "- (2 ^ 63) \<le> limit" "limit < 2 ^ 63"
      "- (2 ^ 63) \<le> offset" "offset < 2 ^ 63"
    using that b by (simp add: repository_search_messages_def run_select_executed)
  from a b c show ?thesis
    by blast
qed

theorem search_messages_validates_query_witness:
  "length (strip (str_of '' a '')) < 2 \<and>
   search_messages \<lparr>messages = [], executed = []\<rparr> ''s1'' (str_of '' a '') 10 0 =
     (Inl ValueError, \<lparr>messages = [], executed = []\<rparr>) \<and>
   2 \<le> length (strip (str_of ''ab'')) \<and>
   - (2 ^ 63) \<le> (10::int) \<and> (10::int) < 2 ^ 63 \<and> - (2 ^ 63) \<le> (0::int) \<and> (0::int) < 2 ^ 63 \<and>
   search_messages \<lparr>messages = [], executed = []\<rparr> ''s1'' (str_of ''ab'') 10 0 =
     (Inr [], \<lparr>messages = [], executed = [SELECT]\<rparr>) \<and>
   executed (snd (search_messages \<lparr>messages = [], executed = []\<rparr> ''s1'' (str_of ''ab'') 10 0)) =
     [SELECT]"
proof -
  let ?db = "\<lparr>messages = [], executed = []\<rparr>"
  have short: "length (strip (str_of '' a '')) < 2"
    by (simp add: strip_def is_space_def str_of_simps)
  have long: "2 \<le> length (strip (str_of ''ab''))"
    by (simp add: strip_def is_space_def str_of_simps)
  have range: "- (2 ^ 63) \<le> (10::int) \<and> (10::int) < 2 ^ 63 \<and> - (2 ^ 63) \<le> (0::int) \<and>
      (0::int) < 2 ^ 63"
    by simp
  from short search_messages_validates_query [of "str_of '' a ''" ?db "''s1''" 10 0]
  have a: "search_messages ?db ''s1'' (str_of '' a '') 10 0 = (Inl ValueError, ?db)"
    by blast
  from long search_messages_validates_query [of "str_of ''ab''" ?db "''s1''" 10 0]
  have "search_messages ?db ''s1'' (str_of ''ab'') 10 0 =
      repository_search_messages ?db ''s1'' (str_of ''ab'') 10 0"
    by blast
  then have b: "search_messages ?db ''s1'' (str_of ''ab'') 10 0 =
      (Inr [], \<lparr>messages = [], executed = [SELECT]\<rparr>)"
    by (simp add: repository_search_messages_def run_select_in_range order_by_timestamp_asc_def)
  from long range search_messages_validates_query [of "str_of ''ab''" ?db "''s1''" 10 0]
  have "executed (snd (search_messages ?db ''s1'' (str_of ''ab'') 10 0)) = executed ?db @ [SELECT]"
    by blast
  then have c: "executed (snd (search_messages ?db ''s1'' (str_of ''ab'') 10 0)) = [SELECT]"
    by simp
  from short long range a b c show ?thesis
    by blast
qed

section \<open>The empty sender filter\<close>

text \<open>
  C10. \<open>get_messages\<close> hands its arguments to \<open>get_by_session\<close>, and there the sender
  filter is added only under \<open>if sender:\<close>. So the call with the empty string as sender
  is the repository's call with no sender: for a limit and an offset from 0 to below
  \<open>2 ^ 63\<close> it returns the slice of the listing of the whole session, and with offset 0
  and a limit that covers the table it returns the rows of the session of every sender.
\<close>

theorem get_messages_empty_sender:
  "get_messages db sid limit offset (Some '''') =
     repository_get_by_session db sid limit offset None \<and>
   get_messages db sid limit offset (Some '''') = get_messages db sid limit offset None \<and>
   (0 \<le> limit \<and> limit < 2 ^ 63 \<and> 0 \<le> offset \<and> offset < 2 ^ 63 \<longrightarrow>
      get_messages db sid limit offset (Some '''') =
        (Inr (take (nat limit) (drop (nat offset) (session_sequence (messages db) sid None))),
         db\<lparr>executed := executed db @ [SELECT]\<rparr>)) \<and>
   (int (length (messages db)) \<le> limit \<and> limit < 2 ^ 63 \<longrightarrow>
      (\<exists>rows. fst (get_messages db sid limit 0 (Some '''')) = Inr rows \<and>
         set rows = {r. r \<in> set (messages db) \<and> orm_session_id r = sid}))"
proof -
  have a: "get_messages db sid limit offset (Some '''') =
     repository_get_by_session db sid limit offset None" for limit offset
    by (simp add: get_messages_def repository_get_by_session_def)
  have b: "get_messages db sid limit offset (Some '''') = get_messages db sid limit offset None"
    by (simp add: get_messages_def repository_get_by_session_def)
  have c: "get_messages db sid limit offset (Some '''') =
        (Inr (take (nat limit) (drop (nat offset) (session_sequence (messages db) sid None))),
         db\<lparr>executed := executed db @ [SELECT]\<rparr>)"
    if "0 \<le> limit" "limit < 2 ^ 63" "0 \<le> offset" "offset < 2 ^ 63" for limit offset
    using that
    by (simp add: a repository_get_by_session_def run_select_in_range session_sequence_def
        order_by_timestamp_asc_def)
  have d: "\<exists>rows. fst (get_messages db sid limit 0 (Some '''')) = Inr rows \<and>
         set rows = {r. r \<in> set (messages db) \<and> orm_session_id r = sid}"
    if len: "int (length (messages db)) \<le> limit" and lt: "limit < 2 ^ 63"
  proof -
    let ?s = "session_sequence (messages db) sid None"
    have "length ?s \<le> length (messages db)"
      by (simp add: session_sequence_def)
    with len have "length ?s \<le> nat limit"
      by linarith
    then have t: "take (nat limit) (drop (nat 0) ?s) = ?s"
      by simp
    from len have "0 \<le> limit"
      by linarith
    from c [OF this lt, of 0] t have "fst (get_messages db sid limit 0 (Some '''')) = Inr ?s"
      by simp
    moreover have "set ?s = {r. r \<in> set (messages db) \<and> orm_session_id r = sid}"
      by (auto simp: session_sequence_def)
    ultimately show ?thesis
      by blast
  qed
  from a b c d show ?thesis
    by blast
qed

text \<open>
  Two rows of one session, of the senders \<open>system\<close> and \<open>user\<close>, and a row of another
  session: the listing with the empty sender holds both rows of the session.
\<close>

theorem get_messages_empty_sender_witness:
  "(0::int) \<le> 10 \<and> (10::int) < 2 ^ 63 \<and> (0::int) \<le> 0 \<and> (0::int) < 2 ^ 63 \<and>
   int (length (messages \<lparr>messages =
        [\<lparr>orm_message_id = ''a'', orm_session_id = ''p'', orm_content = str_of ''hola'',
          orm_timestamp = Some 30, orm_sender = ''system'', orm_processed_at = Some 31\<rparr>,
         \<lparr>orm_message_id = ''b'', orm_session_id = ''p'', orm_content = str_of ''adios'',
          orm_timestamp = Some 10, orm_sender = ''user'', orm_processed_at = Some 32\<rparr>,
         \<lparr>orm_message_id = ''c'', orm_session_id = ''q'', orm_content = str_of ''otra'',
          orm_timestamp = Some 20, orm_sender = ''user'', orm_processed_at = Some 33\<rparr>],
      executed = []\<rparr>)) \<le> 10 \<and>
   get_messages
     \<lparr>messages =
        [\<lparr>orm_message_id = ''a'', orm_session_id = ''p'', orm_content = str_of ''hola'',
          orm_timestamp = Some 30, orm_sender = ''system'', orm_processed_at = Some 31\<rparr>,
         \<lparr>orm_message_id = ''b'', orm_session_id = ''p'', orm_content = str_of ''adios'',
          orm_timestamp = Some 10, orm_sender = ''user'', orm_processed_at = Some 32\<rparr>,
         \<lparr>orm_message_id = ''c'', orm_session_id = ''q'', orm_content = str_of ''otra'',
          orm_timestamp = Some 20, orm_sender = ''user'', orm_processed_at = Some 33\<rparr>],
      executed = []\<rparr> ''p'' 10 0 (Some '''') =
     (Inr
        [\<lparr>orm_message_id = ''b'', orm_session_id = ''p'', orm_content = str_of ''adios'',
          orm_timestamp = Some 10, orm_sender = ''user'', orm_processed_at = Some 32\<rparr>,
         \<lparr>orm_message_id = ''a'', orm_session_id = ''p'', orm_content = str_of ''hola'',
          orm_timestamp = Some 30, orm_sender = ''system'', orm_processed_at = Some 31\<rparr>],
      \<lparr>messages =
        [\<lparr>orm_message_id = ''a'', orm_session_id = ''p'', orm_content = str_of ''hola'',
          orm_timestamp = Some 30, orm_sender = ''system'', orm_processed_at = Some 31\<rparr>,
         \<lparr>orm_message_id = ''b'', orm_session_id = ''p'', orm_content = str_of ''adios'',
          orm_timestamp = Some 10, orm_sender = ''user'', orm_processed_at = Some 32\<rparr>,
         \<lparr>orm_message_id = ''c'', orm_session_id = ''q'', orm_content = str_of ''otra'',
          orm_timestamp = Some 20, orm_sender = ''user'', orm_processed_at = Some 33\<rparr>],
      executed = [SELECT]\<rparr>) \<and>
   set [\<lparr>orm_message_id = ''b'', orm_session_id = ''p'', orm_content = str_of ''adios'',
          orm_timestamp = Some 10, orm_sender = ''user'', orm_processed_at = Some 32\<rparr>,
         \<lparr>orm_message_id = ''a'', orm_session_id = ''p'', orm_content = str_of ''hola'',
          orm_timestamp = Some 30, orm_sender = ''system'', orm_processed_at = Some 31\<rparr>] =
     {r. r \<in> set (messages \<lparr>messages =
        [\<lparr>orm_message_id = ''a'', orm_session_id = ''p'', orm_content = str_of ''hola'',
          orm_timestamp = Some 30, orm_sender = ''system'', orm_processed_at = Some 31\<rparr>,
         \<lparr>orm_message_id = ''b'', orm_session_id = ''p'', orm_content = str_of ''adios'',
          orm_timestamp = Some 10, orm_sender = ''user'', orm_processed_at = Some 32\<rparr>,
         \<lparr>orm_message_id = ''c'', orm_session_id = ''q'', orm_content = str_of ''otra'',
          orm_timestamp = Some 20, orm_sender = ''user'', orm_processed_at = Some 33\<rparr>],
      executed = []\<rparr>) \<and> orm_session_id r = ''p''}"
proof -
  let ?db = "\<lparr>messages =
        [\<lparr>orm_message_id = ''a'', orm_session_id = ''p'', orm_content = str_of ''hola'',
          orm_timestamp = Some 30, orm_sender = ''system'', orm_processed_at = Some 31\<rparr>,
         \<lparr>orm_message_id = ''b'', orm_session_id = ''p'', orm_content = str_of ''adios'',
          orm_timestamp = Some 10, orm_sender = ''user'', orm_processed_at = Some 32\<rparr>,
         \<lparr>orm_message_id = ''c'', orm_session_id = ''q'', orm_content = str_of ''otra'',
          orm_timestamp = Some 20, orm_sender = ''user'', orm_processed_at = Some 33\<rparr>],
      executed = []\<rparr>"
  let ?res = "[\<lparr>orm_message_id = ''b'', orm_session_id = ''p'', orm_content = str_of ''adios'',
          orm_timestamp = Some 10, orm_sender = ''user'', orm_processed_at = Some 32\<rparr>,
         \<lparr>orm_message_id = ''a'', orm_session_id = ''p'', orm_content = str_of ''hola'',
          orm_timestamp = Some 30, orm_sender = ''system'', orm_processed_at = Some 31\<rparr>]"
  have range: "(0::int) \<le> 10 \<and> (10::int) < 2 ^ 63 \<and> (0::int) \<le> 0 \<and> (0::int) < 2 ^ 63"
    by simp
  have len: "int (length (messages ?db)) \<le> 10 \<and> (10::int) < 2 ^ 63"
    by simp
  from range get_messages_empty_sender [of ?db "''p''" 10 0]
  have "get_messages ?db ''p'' 10 0 (Some '''') =
        (Inr (take (nat 10) (drop (nat 0) (session_sequence (messages ?db) ''p'' None))),
         ?db\<lparr>executed := executed ?db @ [SELECT]\<rparr>)"
    by blast
  then have a: "get_messages ?db ''p'' 10 0 (Some '''') =
      (Inr ?res, ?db\<lparr>executed := [SELECT]\<rparr>)"
    by (simp add: session_sequence_def)
  from len get_messages_empty_sender [of ?db "''p''" 10 0]
  obtain rows where "fst (get_messages ?db ''p'' 10 0 (Some '''')) = Inr rows"
    and "set rows = {r. r \<in> set (messages ?db) \<and> orm_session_id r = ''p''}"
    by blast
  with a have b: "set ?res = {r. r \<in> set (messages ?db) \<and> orm_session_id r = ''p''}"
    by simp
  have c: "?db\<lparr>executed := [SELECT]\<rparr> =
      \<lparr>messages =
        [\<lparr>orm_message_id = ''a'', orm_session_id = ''p'', orm_content = str_of ''hola'',
          orm_timestamp = Some 30, orm_sender = ''system'', orm_processed_at = Some 31\<rparr>,
         \<lparr>orm_message_id = ''b'', orm_session_id = ''p'', orm_content = str_of ''adios'',
          orm_timestamp = Some 10, orm_sender = ''user'', orm_processed_at = Some 32\<rparr>,
         \<lparr>orm_message_id = ''c'', orm_session_id = ''q'', orm_content = str_of ''otra'',
          orm_timestamp = Some 20, orm_sender = ''user'', orm_processed_at = Some 33\<rparr>],
      executed = [SELECT]\<rparr>"
    by simp
  from range len a b show ?thesis
    unfolding c by blast
qed

section \<open>Timestamps given as strings\<close>

text \<open>
  C8. \<open>_parse_iso_to_dt\<close> returns a \<open>datetime\<close> object unchanged and hands a string to
  \<open>datetime.fromisoformat\<close>. In an ISO-8601 timestamp the letter \<open>Z\<close> stands at the end
  only, as the UTC designator; such a string \<open>s @ ''Z''\<close> is parsed to the value of
  \<open>s @ ''+00:00''\<close>, whatever \<open>fromisoformat\<close> makes of that string.
\<close>

theorem parse_iso_to_dt_trailing_Z:
  "parse_iso_to_dt fromisoformat (Datetime d) = Inr (Some d) \<and>
   (CHR ''Z'' \<notin> set s \<longrightarrow>
      parse_iso_to_dt fromisoformat (IsoString (s @ ''Z'')) =
      parse_iso_to_dt fromisoformat (IsoString (s @ ''+00:00''))) \<and>
   parse_iso_to_dt fromisoformat (IsoString (s @ ''+00:00'')) =
     map_sum id Some (fromisoformat (s @ ''+00:00''))"
proof -
  have "replace CHR ''Z'' ''+00:00'' (s @ ''Z'') = s @ ''+00:00''" if "CHR ''Z'' \<notin> set s"
    using that by (simp add: replace_append replace_no_occurrence) (simp add: replace_def)
  then show ?thesis
    by (auto simp: parse_iso_to_dt_def endswith_def split: sum.splits)
qed

theorem parse_iso_to_dt_trailing_Z_witness:
  "CHR ''Z'' \<notin> set ''2025-09-23T14:30:00'' \<and>
   parse_iso_to_dt
     (\<lambda>s. if s = ''2025-09-23T14:30:00+00:00''
          then Inr \<lparr>wall_clock = 1758637800000000, utcoffset = Some 0\<rparr> else Inl ValueError)
     (IsoString ''2025-09-23T14:30:00Z'') =
     Inr (Some \<lparr>wall_clock = 1758637800000000, utcoffset = Some 0\<rparr>)"
proof -
  have no_Z: "CHR ''Z'' \<notin> set ''2025-09-23T14:30:00''"
    by simp
  from no_Z show ?thesis
    using parse_iso_to_dt_trailing_Z [where
      fromisoformat = "\<lambda>s. if s = ''2025-09-23T14:30:00+00:00''
          then Inr \<lparr>wall_clock = 1758637800000000, utcoffset = Some 0\<rparr> else Inl ValueError"
      and s = "''2025-09-23T14:30:00''"]
    by simp
qed

lemma repository_save_sender:
  "r \<in> set (messages (snd (repository_save f db m))) \<Longrightarrow>
   r \<in> set (messages db) \<or> orm_sender r = sender m"
  by (auto simp: repository_save_def Let_def split: sum.splits if_splits)

lemma process_message_sender: "sender (process_message u ws now a) = sender (ensure_dict a)"
  by (simp add: process_message_def Let_def)

lemma process_message_ensure_dict:
  "process_message u ws now (Dict (ensure_dict message)) = process_message u ws now message"
  by (simp add: process_message_def)

lemma process_message_fields:
  "message_id (process_message u ws now a) = message_id (ensure_dict a)"
  "session_id (process_message u ws now a) = session_id (ensure_dict a)"
  "content (process_message u ws now a) = pattern_sub u ws False (content (ensure_dict a))"
  "timestamp (process_message u ws now a) = timestamp (ensure_dict a)"
  "processed_at (process_message u ws now a) = Datetime now"
  by (simp_all add: process_message_def Let_def)

lemma repository_save_metadata:
  "repository_save f db (m\<lparr>metadata := md\<rparr>) = repository_save f db m"
  by (simp add: repository_save_def Let_def split: sum.splits)

lemma save_message_row:
  "in_message_id mi \<notin> set (map orm_message_id (messages db)) \<Longrightarrow>
      \<exists>row. save_message u ws now f db (Model mi) =
           (Inr row, db\<lparr>messages := messages db @ [row],
                        executed := executed db @ [INSERT, SELECT]\<rparr>) \<and>
         row = \<lparr>orm_message_id = in_message_id mi, orm_session_id = in_session_id mi,
                orm_content = pattern_sub u ws False (in_content mi),
                orm_timestamp = Some (stored_datetime (in_timestamp mi)),
                orm_sender = in_sender mi,
                orm_processed_at = Some (stored_datetime now)\<rparr>"
  by (simp add: save_message_def process_message_ensure_dict repository_save_def Let_def
      process_message_fields process_message_sender parse_iso_to_dt_def model_dump_def)

section \<open>Duplicate message ids\<close>




section \<open>Sender validation on submission\<close>

text \<open>
  C7. A message submitted to the create endpoint with a sender other than \<open>user\<close> and
  \<open>system\<close> fails the validator of \<open>MessageIn\<close>: the answer is the validation error and
  the database is untouched. So every row the endpoint adds to the table has one of the
  two senders.
\<close>

theorem create_message_rejects_invalid_sender:
  "(s \<notin> {''user'', ''system''} \<longrightarrow>
      create_message u ws f now db mid sid c ts s = (HttpError 422, db)) \<and>
   (\<forall>r \<in> set (messages (snd (create_message u ws f now db mid sid c ts s))).
      r \<in> set (messages db) \<or> orm_sender r \<in> {''user'', ''system''})"
proof -
  have a: "create_message u ws f now db mid sid c ts s = (HttpError 422, db)"
    if "s \<notin> {''user'', ''system''}"
    using that by (simp add: create_message_def MessageIn_init_def validate_sender_def)
  have b: "r \<in> set (messages db) \<or> orm_sender r \<in> {''user'', ''system''}"
    if "r \<in> set (messages (snd (create_message u ws f now db mid sid c ts s)))" for r
  proof (cases "s \<in> {''user'', ''system''}")
    case False
    with a that show ?thesis by simp
  next
    case True
    let ?m = "\<lparr>in_message_id = mid, in_session_id = sid, in_content = c,
                in_timestamp = ts, in_sender = s\<rparr>"
    let ?p = "process_message u ws now (Dict (model_dump ?m))"
    from True have init: "MessageIn_init mid sid c ts s = Inr ?m"
      by (auto simp: MessageIn_init_def validate_sender_def)
    have "snd (create_message u ws f now db mid sid c ts s) = snd (repository_save f db ?p)"
      unfolding create_message_def init save_message_def
      by (simp add: Let_def split: prod.splits sum.splits)
    with that have "r \<in> set (messages db) \<or> orm_sender r = sender ?p"
      using repository_save_sender by metis
    moreover have "sender ?p = s"
      by (simp add: process_message_sender model_dump_def)
    ultimately show ?thesis using True by auto
  qed
  from a b show ?thesis by blast
qed

theorem create_message_rejects_invalid_sender_witness:
  "''robot'' \<notin> {''user'', ''system''} \<and>
   create_message \<lparr>word_class = \<lambda>n. False, str_lower = \<lambda>s. s\<rparr>
     [str_of ''tonto'', str_of ''idiota''] (\<lambda>s. Inl ValueError)
     \<lparr>wall_clock = 5, utcoffset = Some 0\<rparr> \<lparr>messages = [], executed = []\<rparr>
     ''m1'' ''s1'' (str_of ''Hola'') \<lparr>wall_clock = 3, utcoffset = None\<rparr> ''robot'' =
     (HttpError 422, \<lparr>messages = [], executed = []\<rparr>)"
proof -
  have bad: "''robot'' \<notin> {''user'', ''system''}"
    by simp
  with create_message_rejects_invalid_sender [where s = "''robot''"
      and u = "\<lparr>word_class = \<lambda>n. False, str_lower = \<lambda>s. s\<rparr>"
      and ws = "[str_of ''tonto'', str_of ''idiota'']"
      and f = "\<lambda>s. Inl ValueError" and now = "\<lparr>wall_clock = 5, utcoffset = Some 0\<rparr>"
      and db = "\<lparr>messages = [], executed = []\<rparr>" and mid = "''m1''" and sid = "''s1''"
      and c = "str_of ''Hola''" and ts = "\<lparr>wall_clock = 3, utcoffset = None\<rparr>"]
  show ?thesis by blast
qed

section \<open>What a stored record holds\<close>

text \<open>
  C9. The repository builds the row from the six keys \<open>message_id\<close>, \<open>session_id\<close>,
  \<open>content\<close>, \<open>timestamp\<close>, \<open>sender\<close> and \<open>processed_at\<close> of the processed message: the
  \<open>metadata\<close> entry has no influence on the saved row nor on the database, a message
  saved through \<open>save_message\<close> is stored as these six values (the censored content, and
  the timestamp and the processing time as the database stores them), and the
  dictionary of a stored row has these six keys.
\<close>

theorem metadata_not_persisted:
  "repository_save f db (m\<lparr>metadata := md\<rparr>) = repository_save f db m \<and>
   save_message u ws now f db message =
     repository_save f db ((process_message u ws now message)\<lparr>metadata := None\<rparr>) \<and>
   (in_message_id mi \<notin> set (map orm_message_id (messages db)) \<longrightarrow>
      (\<exists>row. save_message u ws now f db (Model mi) =
           (Inr row, db\<lparr>messages := messages db @ [row],
                        executed := executed db @ [INSERT, SELECT]\<rparr>) \<and>
         row = \<lparr>orm_message_id = in_message_id mi, orm_session_id = in_session_id mi,
                orm_content = pattern_sub u ws False (in_content mi),
                orm_timestamp = Some (stored_datetime (in_timestamp mi)),
                orm_sender = in_sender mi,
                orm_processed_at = Some (stored_datetime now)\<rparr>)) \<and>
   map fst (to_dict row') =
     [''message_id'', ''session_id'', ''content'', ''timestamp'', ''sender'', ''processed_at'']"
proof -
  have a: "repository_save f db (m\<lparr>metadata := md\<rparr>) = repository_save f db m"
    by (rule repository_save_metadata)
  have b: "save_message u ws now f db message =
     repository_save f db ((process_message u ws now message)\<lparr>metadata := None\<rparr>)"
    by (simp add: save_message_def process_message_ensure_dict repository_save_metadata)
  have c: "in_message_id mi \<notin> set (map orm_message_id (messages db)) \<longrightarrow>
      (\<exists>row. save_message u ws now f db (Model mi) =
           (Inr row, db\<lparr>messages := messages db @ [row],
                        executed := executed db @ [INSERT, SELECT]\<rparr>) \<and>
         row = \<lparr>orm_message_id = in_message_id mi, orm_session_id = in_session_id mi,
                orm_content = pattern_sub u ws False (in_content mi),
                orm_timestamp = Some (stored_datetime (in_timestamp mi)),
                orm_sender = in_sender mi,
                orm_processed_at = Some (stored_datetime now)\<rparr>)"
    using save_message_row by blast
  have d: "map fst (to_dict row') =
     [''message_id'', ''session_id'', ''content'', ''timestamp'', ''sender'', ''processed_at'']"
    by (simp add: to_dict_def)
  show ?thesis
    by (rule conjI [OF a conjI [OF b conjI [OF c d]]])
qed

text \<open>
  The message of the scenario with a timestamp of offset \<open>+02:00\<close>: the row holds the
  wall clock of the timestamp and of the processing time.
\<close>

theorem metadata_not_persisted_witness:
  "in_message_id (scenario_message \<lparr>wall_clock = 1758645000000000, utcoffset = Some 7200000000\<rparr>)
     \<notin> set (map orm_message_id (messages \<lparr>messages = [], executed = []\<rparr>)) \<and>
   save_message \<lparr>word_class = \<lambda>n. False, str_lower = \<lambda>s. s\<rparr>
       [str_of ''tonto'', str_of ''idiota''] \<lparr>wall_clock = 1758637805000000, utcoffset = Some 0\<rparr>
       (\<lambda>s. Inl ValueError) \<lparr>messages = [], executed = []\<rparr>
       (Model (scenario_message
          \<lparr>wall_clock = 1758645000000000, utcoffset = Some 7200000000\<rparr>)) =
     (Inr \<lparr>orm_message_id = ''m1'', orm_session_id = ''s1'',
           orm_content = pattern_sub \<lparr>word_class = \<lambda>n. False, str_lower = \<lambda>s. s\<rparr>
             [str_of ''tonto'', str_of ''idiota''] False (str_of ''Hola tonto idiota''),
           orm_timestamp = Some 1758645000000000, orm_sender = ''user'',
           orm_processed_at = Some 1758637805000000\<rparr>,
      \<lparr>messages =
         [\<lparr>orm_message_id = ''m1'', orm_session_id = ''s1'',
           orm_content = pattern_sub \<lparr>word_class = \<lambda>n. False, str_lower = \<lambda>s. s\<rparr>
             [str_of ''tonto'', str_of ''idiota''] False (str_of ''Hola tonto idiota''),
           orm_timestamp = Some 1758645000000000, orm_sender = ''user'',
           orm_processed_at = Some 1758637805000000\<rparr>],
       executed = [INSERT, SELECT]\<rparr>)"
proof -
  let ?T = "\<lparr>wall_clock = 1758645000000000, utcoffset = Some 7200000000\<rparr>"
  let ?now = "\<lparr>wall_clock = 1758637805000000, utcoffset = Some 0\<rparr>"
  let ?u = "\<lparr>word_class = \<lambda>n. False, str_lower = \<lambda>s. s\<rparr>"
  let ?ws = "[str_of ''tonto'', str_of ''idiota'']"
  let ?db = "\<lparr>messages = [], executed = []\<rparr>"
  have fresh: "in_message_id (scenario_message ?T) \<notin> set (map orm_message_id (messages ?db))"
    by simp
  from fresh
    metadata_not_persisted [where f = "\<lambda>s. Inl ValueError" and db = ?db
      and mi = "scenario_message ?T" and u = ?u and ws = ?ws and now = ?now]
  obtain row where
    "save_message ?u ?ws ?now (\<lambda>s. Inl ValueError) ?db (Model (scenario_message ?T)) =
       (Inr row, ?db\<lparr>messages := messages ?db @ [row],
                     executed := executed ?db @ [INSERT, SELECT]\<rparr>)"
    "row = \<lparr>orm_message_id = in_message_id (scenario_message ?T),
            orm_session_id = in_session_id (scenario_message ?T),
            orm_content = pattern_sub ?u ?ws False (in_content (scenario_message ?T)),
            orm_timestamp = Some (stored_datetime (in_timestamp (scenario_message ?T))),
            orm_sender = in_sender (scenario_message ?T),
            orm_processed_at = Some (stored_datetime ?now)\<rparr>"
    by blast
  with fresh show ?thesis
    by (simp add: scenario_message_def stored_datetime_def del: pattern_sub.simps)
qed

section \<open>Listing a session\<close>

text \<open>
  C4, as the code has it. For a limit and an offset from 0 to below \<open>2 ^ 63\<close>, and a
  sender that is absent or not the empty string, \<open>get_by_session\<close> executes one
  \<open>SELECT\<close> and returns the slice \<open>[offset, offset + limit)\<close> of the full listing of the
  session (of that sender): its timestamps do not decrease, and its length is
  \<open>min limit (max 0 (N - offset))\<close> for a full listing of \<open>N\<close> rows. With the empty
  string as sender the slice is taken from the listing of the whole session.
\<close>

theorem get_by_session_slice:
  assumes "0 \<le> limit" and "limit < 2 ^ 63" and "0 \<le> offset" and "offset < 2 ^ 63"
    and "sender' \<noteq> Some ''''"
  shows "\<exists>rows.
     repository_get_by_session db sid limit offset sender' =
       (Inr rows, db\<lparr>executed := executed db @ [SELECT]\<rparr>) \<and>
     rows = take (nat limit) (drop (nat offset) (session_sequence (messages db) sid sender')) \<and>
     sorted (map orm_timestamp rows) \<and>
     int (length rows) =
       min limit (max 0 (int (length (session_sequence (messages db) sid sender')) - offset)) \<and>
     fst (repository_get_by_session db sid limit offset (Some '''')) =
       Inr (take (nat limit) (drop (nat offset) (session_sequence (messages db) sid None)))"
proof -
  let ?rows = "take (nat limit) (drop (nat offset) (session_sequence (messages db) sid sender'))"
  have eq: "repository_get_by_session db sid limit offset sender' =
      (Inr ?rows, db\<lparr>executed := executed db @ [SELECT]\<rparr>)"
    using assms
    by (cases sender')
       (simp_all add: repository_get_by_session_def session_sequence_def run_select_in_range
          order_by_timestamp_asc_def filter_filter_conj)
  have e: "fst (repository_get_by_session db sid limit offset (Some '''')) =
      Inr (take (nat limit) (drop (nat offset) (session_sequence (messages db) sid None)))"
    using assms
    by (simp add: repository_get_by_session_def session_sequence_def run_select_in_range
          order_by_timestamp_asc_def)
  have "sorted (map orm_timestamp (session_sequence (messages db) sid sender'))"
    by (simp add: session_sequence_def)
  then have s: "sorted (map orm_timestamp ?rows)"
    by (simp add: take_map [symmetric] drop_map [symmetric] sorted_wrt_take sorted_wrt_drop)
  have l: "int (length ?rows) =
      min limit (max 0 (int (length (session_sequence (messages db) sid sender')) - offset))"
    using assms by (simp add: min_def max_def) linarith
  from eq e s l show ?thesis by blast
qed

text \<open>
  The scenario of the specification in small: three rows of one session, saved out of
  timestamp order; limit 2 and offset 1 give the second and third by timestamp.
\<close>

theorem get_by_session_slice_witness:
  "(0::int) \<le> 2 \<and> (2::int) < 2 ^ 63 \<and> (0::int) \<le> 1 \<and> (1::int) < 2 ^ 63 \<and>
   (None :: string option) \<noteq> Some '''' \<and>
   fst (repository_get_by_session
     \<lparr>messages =
       [\<lparr>orm_message_id = ''a'', orm_session_id = ''p'', orm_content = str_of ''msg 2'',
         orm_timestamp = Some 30, orm_sender = ''user'', orm_processed_at = Some 31\<rparr>,
        \<lparr>orm_message_id = ''b'', orm_session_id = ''p'', orm_content = str_of ''msg 0'',
         orm_timestamp = Some 10, orm_sender = ''user'', orm_processed_at = Some 32\<rparr>,
        \<lparr>orm_message_id = ''c'', orm_session_id = ''p'', orm_content = str_of ''msg 1'',
         orm_timestamp = Some 20, orm_sender = ''system'', orm_processed_at = Some 33\<rparr>],
      executed = []\<rparr>
     ''p'' 2 1 None) =
     Inr [\<lparr>orm_message_id = ''c'', orm_session_id = ''p'', orm_content = str_of ''msg 1'',
           orm_timestamp = Some 20, orm_sender = ''system'', orm_processed_at = Some 33\<rparr>,
          \<lparr>orm_message_id = ''a'', orm_session_id = ''p'', orm_content = str_of ''msg 2'',
           orm_timestamp = Some 30, orm_sender = ''user'', orm_processed_at = Some 31\<rparr>]"
proof -
  let ?db = "\<lparr>messages =
       [\<lparr>orm_message_id = ''a'', orm_session_id = ''p'', orm_content = str_of ''msg 2'',
         orm_timestamp = Some 30, orm_sender = ''user'', orm_processed_at = Some 31\<rparr>,
        \<lparr>orm_message_id = ''b'', orm_session_id = ''p'', orm_content = str_of ''msg 0'',
         orm_timestamp = Some 10, orm_sender = ''user'', orm_processed_at = Some 32\<rparr>,
        \<lparr>orm_message_id = ''c'', orm_session_id = ''p'', orm_content = str_of ''msg 1'',
         orm_timestamp = Some 20, orm_sender = ''system'', orm_processed_at = Some 33\<rparr>],
      executed = []\<rparr>"
  have range: "(0::int) \<le> 2" "(2::int) < 2 ^ 63" "(0::int) \<le> 1" "(1::int) < 2 ^ 63"
    "(None :: string option) \<noteq> Some ''''"
    by simp_all
  from get_by_session_slice [OF range, of ?db "''p''"]
  have "fst (repository_get_by_session ?db ''p'' 2 1 None) =
      Inr (take (nat 2) (drop (nat 1) (session_sequence (messages ?db) ''p'' None)))"
    by auto
  with range show ?thesis
    by (simp add: session_sequence_def)
qed

text \<open>
  C4 as stated fails in two ways. With the empty string as sender: no stored row has
  the empty sender, so the listing of that sender is empty, but the row of sender
  \<open>user\<close> is returned. With the limit \<open>2 ^ 63\<close>: the call raises \<open>OverflowError\<close> and
  returns no rows.
\<close>

theorem get_by_session_counterexample:
  "fst (repository_get_by_session
     \<lparr>messages =
       [\<lparr>orm_message_id = ''a'', orm_session_id = ''p'', orm_content = str_of ''msg'',
         orm_timestamp = Some 10, orm_sender = ''user'', orm_processed_at = Some 11\<rparr>],
      executed = []\<rparr>
     ''p'' 10 0 (Some '''')) \<noteq>
   Inr (take 10 (drop 0 (session_sequence
     [\<lparr>orm_message_id = ''a'', orm_session_id = ''p'', orm_content = str_of ''msg'',
       orm_timestamp = Some 10, orm_sender = ''user'', orm_processed_at = Some 11\<rparr>]
     ''p'' (Some '''')))) \<and>
   fst (repository_get_by_session
     \<lparr>messages =
       [\<lparr>orm_message_id = ''a'', orm_session_id = ''p'', orm_content = str_of ''msg'',
         orm_timestamp = Some 10, orm_sender = ''user'', orm_processed_at = Some 11\<rparr>],
      executed = []\<rparr>
     ''p'' 9223372036854775808 0 None) = Inl OverflowError"
  by (simp add: repository_get_by_session_def session_sequence_def run_select_def
      sql_limit_def sql_offset_def order_by_timestamp_asc_def)

section \<open>Searching a session\<close>

text \<open>
  C5. The query goes into the \<open>LIKE\<close> pattern as it is, so \<open>_\<close> and \<open>%\<close> in it are
  wildcards: the search for \<open>a_c\<close> returns the row whose content is \<open>abc\<close>, in which
  \<open>a_c\<close> does not occur.
\<close>

theorem search_messages_wildcard:
  "repository_search_messages
     \<lparr>messages =
       [\<lparr>orm_message_id = ''m1'', orm_session_id = ''s1'', orm_content = str_of ''abc'',
         orm_timestamp = Some 1, orm_sender = ''user'', orm_processed_at = Some 2\<rparr>],
      executed = []\<rparr>
     ''s1'' (str_of ''a_c'') 10 0 =
     (Inr [\<lparr>orm_message_id = ''m1'', orm_session_id = ''s1'', orm_content = str_of ''abc'',
            orm_timestamp = Some 1, orm_sender = ''user'', orm_processed_at = Some 2\<rparr>],
      \<lparr>messages =
       [\<lparr>orm_message_id = ''m1'', orm_session_id = ''s1'', orm_content = str_of ''abc'',
         orm_timestamp = Some 1, orm_sender = ''user'', orm_processed_at = Some 2\<rparr>],
      executed = [SELECT]\<rparr>) \<and>
   \<not> is_substring (sql_lower (str_of ''a_c'')) (sql_lower (str_of ''abc''))"
proof -
  have "{0..length (sql_lower (str_of ''abc''))} = {0, 1, 2, 3}"
    by (auto simp: sql_lower_def str_of_simps)
  then have "\<not> is_substring (sql_lower (str_of ''a_c'')) (sql_lower (str_of ''abc''))"
    by (simp add: is_substring_def) (simp add: sql_lower_def str_of_simps)
  then show ?thesis
    by (simp add: repository_search_messages_def ilike_def sql_lower_def run_select_def
        sql_limit_def sql_offset_def order_by_timestamp_asc_def str_of_simps)
qed

section \<open>The save scenario\<close>

lemma scenario_sub:
  "pattern_sub u [str_of ''tonto'', str_of ''idiota''] False (str_of ''Hola tonto idiota'') =
     str_of ''Hola *** ***''"
  "pattern_sub u [str_of ''idiota'', str_of ''tonto''] False (str_of ''Hola tonto idiota'') =
     str_of ''Hola *** ***''"
  by (simp_all add: alternative_matches_def word_boundary_def literal_matches_def
      ignorecase_matches_def is_word_char_def mask_def str_of_simps)

lemma scenario_findall:
  "pattern_findall u [str_of ''tonto'', str_of ''idiota''] False (str_of ''Hola tonto idiota'') =
     [str_of ''tonto'', str_of ''idiota'']"
  "pattern_findall u [str_of ''idiota'', str_of ''tonto''] False (str_of ''Hola tonto idiota'') =
     [str_of ''tonto'', str_of ''idiota'']"
  by (simp_all add: alternative_matches_def word_boundary_def literal_matches_def
      ignorecase_matches_def is_word_char_def str_of_simps)

lemma lower_bad_words:
  "lower u (str_of ''tonto'') = str_of ''tonto''" "lower u (str_of ''idiota'') = str_of ''idiota''"
  by (simp_all add: lower_def lower_char_def str_of_simps)

lemma sorted_bad_words:
  "sorted_list_of_set {str_of ''tonto'', str_of ''idiota''} = [str_of ''idiota'', str_of ''tonto'']"
proof -
  have "sorted_list_of_set {[116, 111, 110, 116, 111 :: nat], [105, 100, 105, 111, 116, 97]} =
      [[105, 100, 105, 111, 116, 97], [116, 111, 110, 116, 111]]"
    by code_simp
  then show ?thesis
    by (simp add: str_of_simps)
qed

lemma scenario_process_message:
  assumes "ws = [str_of ''tonto'', str_of ''idiota''] \<or> ws = [str_of ''idiota'', str_of ''tonto'']"
  shows "content (process_message u ws now (Model (scenario_message T))) = str_of ''Hola *** ***''"
    and "metadata (process_message u ws now (Model (scenario_message T))) =
      Some \<lparr>length_meta = 17, bad_words_meta = [str_of ''idiota'', str_of ''tonto'']\<rparr>"
proof -
  have len: "length (str_of ''Hola tonto idiota'') = 17"
    by (simp add: str_of_def)
  from assms
  show "content (process_message u ws now (Model (scenario_message T))) = str_of ''Hola *** ***''"
    by (auto simp: process_message_def Let_def model_dump_def scenario_message_def
        scenario_sub simp del: pattern_sub.simps pattern_findall.simps)
  from assms
  show "metadata (process_message u ws now (Model (scenario_message T))) =
      Some \<lparr>length_meta = 17, bad_words_meta = [str_of ''idiota'', str_of ''tonto'']\<rparr>"
    by (auto simp: process_message_def Let_def model_dump_def scenario_message_def
        scenario_findall lower_bad_words sorted_bad_words len
        simp del: pattern_sub.simps pattern_findall.simps)
qed

text \<open>
  C2, as the code has it. The message of the scenario, saved under an id new to the
  table, is stored with the content \<open>Hola *** ***\<close>; the metadata that
  \<open>process_message\<close> computes for it is \<open>{length: 17, bad_words: [idiota, tonto]}\<close>, the
  content having 17 characters.
\<close>

theorem save_scenario:
  assumes "set ws = bad_words" and "distinct ws"
    and "''m1'' \<notin> set (map orm_message_id (messages db))"
  shows "(\<exists>row. save_message u ws now f db (Model (scenario_message T)) =
             (Inr row, db\<lparr>messages := messages db @ [row],
                          executed := executed db @ [INSERT, SELECT]\<rparr>) \<and>
           orm_content row = str_of ''Hola *** ***'') \<and>
         metadata (process_message u ws now (Model (scenario_message T))) =
           Some \<lparr>length_meta = 17, bad_words_meta = [str_of ''idiota'', str_of ''tonto'']\<rparr>"
proof -
  have "str_of ''tonto'' \<noteq> str_of ''idiota''"
    by (simp add: str_of_simps)
  with assms(1,2)
  have ws: "ws = [str_of ''tonto'', str_of ''idiota''] \<or> ws = [str_of ''idiota'', str_of ''tonto'']"
    by (intro two_orders) (simp_all add: bad_words_def)
  have "in_message_id (scenario_message T) \<notin> set (map orm_message_id (messages db))"
    using assms(3) by (simp add: scenario_message_def)
  then obtain row where
    row: "save_message u ws now f db (Model (scenario_message T)) =
        (Inr row, db\<lparr>messages := messages db @ [row],
                     executed := executed db @ [INSERT, SELECT]\<rparr>)"
      "row = \<lparr>orm_message_id = in_message_id (scenario_message T),
            orm_session_id = in_session_id (scenario_message T),
            orm_content = pattern_sub u ws False (in_content (scenario_message T)),
            orm_timestamp = Some (stored_datetime (in_timestamp (scenario_message T))),
            orm_sender = in_sender (scenario_message T),
            orm_processed_at = Some (stored_datetime now)\<rparr>"
    using save_message_row by blast
  from ws row(2) have "orm_content row = str_of ''Hola *** ***''"
    by (auto simp: scenario_message_def scenario_sub simp del: pattern_sub.simps)
  with row(1) scenario_process_message(2) [OF ws] show ?thesis
    by blast
qed

theorem save_scenario_witness:
  "set [str_of ''tonto'', str_of ''idiota''] = bad_words \<and>
   distinct [str_of ''tonto'', str_of ''idiota''] \<and>
   ''m1'' \<notin> set (map orm_message_id (messages \<lparr>messages = [], executed = []\<rparr>)) \<and>
   metadata (process_message \<lparr>word_class = \<lambda>n. False, str_lower = \<lambda>s. s\<rparr>
       [str_of ''tonto'', str_of ''idiota''] \<lparr>wall_clock = 7, utcoffset = Some 0\<rparr>
       (Model (scenario_message \<lparr>wall_clock = 3, utcoffset = None\<rparr>))) =
     Some \<lparr>length_meta = 17, bad_words_meta = [str_of ''idiota'', str_of ''tonto'']\<rparr>"
proof -
  have a: "set [str_of ''tonto'', str_of ''idiota''] = bad_words"
    by (simp add: bad_words_def)
  have b: "distinct [str_of ''tonto'', str_of ''idiota'']"
    by (simp add: str_of_simps)
  have c: "''m1'' \<notin> set (map orm_message_id (messages \<lparr>messages = [], executed = []\<rparr>))"
    by simp
  from save_scenario [OF a b c, where u = "\<lparr>word_class = \<lambda>n. False, str_lower = \<lambda>s. s\<rparr>"
      and now = "\<lparr>wall_clock = 7, utcoffset = Some 0\<rparr>" and f = "\<lambda>s. Inl ValueError"
      and T = "\<lparr>wall_clock = 3, utcoffset = None\<rparr>"] a b c
  show ?thesis
    by blast
qed

text \<open>
  C2 as stated gives the length 18: the metadata of the scenario is not
  \<open>{length: 18, bad_words: [idiota, tonto]}\<close>.
\<close>

theorem save_scenario_length_counterexample:
  "metadata (process_message \<lparr>word_class = \<lambda>n. False, str_lower = \<lambda>s. s\<rparr>
       [str_of ''tonto'', str_of ''idiota''] \<lparr>wall_clock = 7, utcoffset = Some 0\<rparr>
       (Model (scenario_message \<lparr>wall_clock = 3, utcoffset = None\<rparr>))) \<noteq>
     Some \<lparr>length_meta = 18, bad_words_meta = [str_of ''idiota'', str_of ''tonto'']\<rparr>"
  by (simp add: process_message_def Let_def model_dump_def scenario_message_def str_of_def
      del: pattern_sub.simps pattern_findall.simps)

section \<open>Censoring\<close>

text \<open>
  C1. The content of six characters that spells \<open>idiota\<close> with the dotless i, U+0131
  (code point 305), in the third place holds neither forbidden word. Under
  \<open>re.IGNORECASE\<close> the letter \<open>i\<close> of the pattern matches U+0131, so \<open>process_message\<close>
  replaces the whole content by the mask, whatever the order of the alternatives, and
  lists the matched text, which \<open>str.lower\<close> leaves as it is and which is not a forbidden
  word, in \<open>bad_words\<close>.
\<close>

theorem process_message_dotless_i:
  "content (process_message u [str_of ''tonto'', str_of ''idiota''] now
      (Dict (d\<lparr>content := [105, 100, 305, 111, 116, 97]\<rparr>))) = str_of ''***'' \<and>
   metadata (process_message u [str_of ''tonto'', str_of ''idiota''] now
      (Dict (d\<lparr>content := [105, 100, 305, 111, 116, 97]\<rparr>))) =
     Some \<lparr>length_meta = 6, bad_words_meta = [[105, 100, 305, 111, 116, 97]]\<rparr> \<and>
   content (process_message u [str_of ''idiota'', str_of ''tonto''] now
      (Dict (d\<lparr>content := [105, 100, 305, 111, 116, 97]\<rparr>))) = str_of ''***'' \<and>
   metadata (process_message u [str_of ''idiota'', str_of ''tonto''] now
      (Dict (d\<lparr>content := [105, 100, 305, 111, 116, 97]\<rparr>))) =
     Some \<lparr>length_meta = 6, bad_words_meta = [[105, 100, 305, 111, 116, 97]]\<rparr> \<and>
   [105, 100, 305, 111, 116, 97] \<notin> bad_words"
proof -
  have sub:
    "pattern_sub u [str_of ''tonto'', str_of ''idiota''] False [105, 100, 305, 111, 116, 97] =
       str_of ''***''"
    "pattern_sub u [str_of ''idiota'', str_of ''tonto''] False [105, 100, 305, 111, 116, 97] =
       str_of ''***''"
    by (simp_all add: alternative_matches_def word_boundary_def literal_matches_def
        ignorecase_matches_def is_word_char_def mask_def str_of_simps)
  have findall:
    "pattern_findall u [str_of ''tonto'', str_of ''idiota''] False [105, 100, 305, 111, 116, 97] =
       [[105, 100, 305, 111, 116, 97]]"
    "pattern_findall u [str_of ''idiota'', str_of ''tonto''] False [105, 100, 305, 111, 116, 97] =
       [[105, 100, 305, 111, 116, 97]]"
    by (simp_all add: alternative_matches_def word_boundary_def literal_matches_def
        ignorecase_matches_def is_word_char_def str_of_simps)
  have low: "lower u [105, 100, 305, 111, 116, 97] = [105, 100, 305, 111, 116, 97]"
    by (simp add: lower_def lower_char_def)
  have no: "[105, 100, 305, 111, 116, 97] \<notin> bad_words"
    by (simp add: bad_words_def str_of_simps)
  from sub findall low no show ?thesis
    by (simp add: process_message_def Let_def del: pattern_sub.simps pattern_findall.simps)
qed

text \<open>
  The same happens with the capital I with a dot, U+0130 (code point 304), in the third
  place: the word is masked, and \<open>bad_words\<close> holds its lowercase text, which has the
  combining dot U+0307 after the \<open>i\<close>.
\<close>

lemma process_message_dotted_capital_i:
  "content (process_message u [str_of ''tonto'', str_of ''idiota''] now
      (Dict (d\<lparr>content := [105, 100, 304, 111, 116, 97]\<rparr>))) = str_of ''***'' \<and>
   metadata (process_message u [str_of ''tonto'', str_of ''idiota''] now
      (Dict (d\<lparr>content := [105, 100, 304, 111, 116, 97]\<rparr>))) =
     Some \<lparr>length_meta = 6, bad_words_meta = [[105, 100, 105, 775, 111, 116, 97]]\<rparr>"
proof -
  have sub:
    "pattern_sub u [str_of ''tonto'', str_of ''idiota''] False [105, 100, 304, 111, 116, 97] =
       str_of ''***''"
    by (simp add: alternative_matches_def word_boundary_def literal_matches_def
        ignorecase_matches_def is_word_char_def mask_def str_of_simps)
  have findall:
    "pattern_findall u [str_of ''tonto'', str_of ''idiota''] False [105, 100, 304, 111, 116, 97] =
       [[105, 100, 304, 111, 116, 97]]"
    by (simp add: alternative_matches_def word_boundary_def literal_matches_def
        ignorecase_matches_def is_word_char_def str_of_simps)
  have low: "lower u [105, 100, 304, 111, 116, 97] = [105, 100, 105, 775, 111, 116, 97]"
    by (simp add: lower_def lower_char_def)
  from sub findall low show ?thesis
    by (simp add: process_message_def Let_def del: pattern_sub.simps pattern_findall.simps)
qed

section \<open>Censoring of contents without U+0130 and U+0131\<close>

lemma bad_word_facts:
  assumes "w \<in> bad_words"
  shows "w \<noteq> []" and "set w \<subseteq> {116, 111, 110, 105, 100, 97}"
  using assms by (auto simp: bad_words_def str_of_simps)

lemma ignorecase_same_letter:
  assumes "p \<in> {116, 111, 110, 105, 100, 97}" and "x \<noteq> 304" and "x \<noteq> 305"
  shows "ignorecase_matches p x = same_letter p x"
proof -
  from assms(1) have "97 \<le> p" "p \<le> 122" "p \<noteq> 107" "p \<noteq> 115"
    by auto
  with assms(2,3) show ?thesis
    by (simp add: ignorecase_matches_def same_letter_def)
qed

lemma literal_matches_same_letters:
  assumes w: "w \<in> bad_words" and s: "304 \<notin> set s" "305 \<notin> set s"
  shows "literal_matches w s =
     (length w \<le> length s \<and> list_all2 same_letter w (take (length w) s))"
proof -
  let ?m = "take (length w) s"
  have eq: "ignorecase_matches (w ! k) (?m ! k) = same_letter (w ! k) (?m ! k)"
    if k: "k < length w" and len: "length w = length ?m" for k
  proof -
    from k have "w ! k \<in> set w"
      by simp
    with w have p: "w ! k \<in> {116, 111, 110, 105, 100, 97}"
      using bad_word_facts(2) by blast
    from k len have "k < length ?m"
      by (simp only:)
    then have "?m ! k \<in> set ?m"
      by (rule nth_mem)
    then have "?m ! k \<in> set s"
      by (rule in_set_takeD)
    with s have "?m ! k \<noteq> 304" "?m ! k \<noteq> 305"
      by auto
    with p show ?thesis
      by (rule ignorecase_same_letter)
  qed
  have "list_all2 ignorecase_matches w ?m = list_all2 same_letter w ?m"
    unfolding list_all2_conv_all_nth using eq by blast
  then show ?thesis
    by (simp add: literal_matches_def)
qed

lemma same_letter_word_char:
  assumes "p \<in> {116, 111, 110, 105, 100, 97}" and "same_letter p x"
  shows "is_word_char u x" and "x < 256" and "lower_char x = [p]"
proof -
  from assms(1) have r: "97 \<le> p" "p \<le> 122"
    by auto
  from assms(2) have "x = p \<or> x + 32 = p"
    by (simp add: same_letter_def)
  with r have range: "(65 \<le> x \<and> x \<le> 90 \<and> x + 32 = p) \<or> (97 \<le> x \<and> x \<le> 122 \<and> x = p)"
    by arith
  then have letter: "(65 \<le> x \<and> x \<le> 90) \<or> (97 \<le> x \<and> x \<le> 122)"
    by arith
  then show lt: "x < 256"
    by arith
  from lt have "is_word_char u x =
      ((48 \<le> x \<and> x \<le> 57) \<or> (65 \<le> x \<and> x \<le> 90) \<or> x = 95 \<or> (97 \<le> x \<and> x \<le> 122) \<or>
        x = 170 \<or> x = 178 \<or> x = 179 \<or> x = 181 \<or> x = 185 \<or> x = 186 \<or>
        (188 \<le> x \<and> x \<le> 190) \<or> (192 \<le> x \<and> x \<le> 214) \<or> (216 \<le> x \<and> x \<le> 246) \<or>
        248 \<le> x)"
    by (simp only: is_word_char_def if_True)
  with letter show "is_word_char u x"
    by blast
  from range show "lower_char x = [p]"
  proof
    assume "65 \<le> x \<and> x \<le> 90 \<and> x + 32 = p"
    then show ?thesis
      by (simp add: lower_char_def)
  next
    assume "97 \<le> x \<and> x \<le> 122 \<and> x = p"
    then show ?thesis
      by (simp add: lower_char_def)
  qed
qed

lemma same_letters_lower:
  assumes "list_all2 same_letter w m" and "set w \<subseteq> {116, 111, 110, 105, 100, 97}"
  shows "list_all (\<lambda>n. n < 256 \<or> n = 304 \<or> n = 305) m \<and> concat (map lower_char m) = w"
  using assms
proof (induction rule: list_all2_induct)
  case Nil
  show ?case by simp
next
  case (Cons p ps x xs)
  from Cons.prems have p: "p \<in> {116, 111, 110, 105, 100, 97}"
    by simp
  from Cons.prems Cons.IH
  have IH: "list_all (\<lambda>n. n < 256 \<or> n = 304 \<or> n = 305) xs \<and> concat (map lower_char xs) = ps"
    by simp
  from same_letter_word_char(2,3) [OF p Cons.hyps(1)] IH show ?case
    by simp
qed

lemma occurrence_lower:
  assumes "w \<in> bad_words" and "list_all2 same_letter w m"
  shows "lower u m = w"
  using same_letters_lower [OF assms(2) bad_word_facts(2) [OF assms(1)]]
  by (simp add: lower_def)

lemma matched_chars_word:
  assumes w: "w \<in> bad_words" and m: "list_all2 same_letter w m" and x: "x \<in> set m"
  shows "is_word_char u x"
proof -
  from x obtain k where k: "k < length m" "m ! k = x"
    by (auto simp: in_set_conv_nth)
  from m have len: "length w = length m"
    by (rule list_all2_lengthD)
  from m k(1) have sl: "same_letter (w ! k) (m ! k)"
    by (simp add: list_all2_conv_all_nth)
  from k(1) len have "w ! k \<in> set w"
    by simp
  with w have "w ! k \<in> {116, 111, 110, 105, 100, 97}"
    using bad_word_facts(2) by blast
  from same_letter_word_char(1) [OF this sl] k(2) show ?thesis
    by simp
qed

lemma bad_words_same_start:
  assumes "w \<in> bad_words" and "w' \<in> bad_words"
    and "list_all2 same_letter w (take (length w) s)"
    and "list_all2 same_letter w' (take (length w') s)"
  shows "w = w'"
  using assms by (cases s) (auto simp: bad_words_def str_of_simps same_letter_def)

lemma match_at_None:
  "(match_at u ws prev s = None) = (\<forall>w \<in> set ws. \<not> alternative_matches u w prev s)"
  by (induction ws) auto

lemma match_at_Some:
  "match_at u ws prev s = Some m \<Longrightarrow>
     \<exists>w \<in> set ws. alternative_matches u w prev s \<and> m = take (length w) s"
  by (induction ws) (auto split: if_splits)

lemma word_boundary_at:
  assumes "i \<le> length c"
  shows "word_boundary u (word_before u c i) (drop i c) = boundary_at u c i"
proof (cases "i < length c")
  case True
  then have "drop i c = c ! i # drop (Suc i) c"
    by (simp add: Cons_nth_drop_Suc)
  with True show ?thesis
    by (simp add: word_boundary_def boundary_at_def is_word_at_def)
next
  case False
  with assms show ?thesis
    by (simp add: word_boundary_def boundary_at_def is_word_at_def)
qed

lemma word_before_after:
  assumes "w \<in> bad_words" and "i + length w \<le> length c"
  shows "word_before u c (i + length w) = is_word_char u (last (take (length w) (drop i c)))"
proof -
  let ?n = "length w"
  let ?m = "take ?n (drop i c)"
  from assms have n: "0 < ?n"
    by (simp add: bad_word_facts)
  from assms have len: "length ?m = ?n"
    by simp
  with n have ne: "?m \<noteq> []"
    by auto
  have "last ?m = ?m ! (?n - 1)"
    using ne len by (simp add: last_conv_nth)
  moreover have "?m ! (?n - 1) = c ! (i + (?n - 1))"
    using n assms(2) by simp
  moreover have "i + (?n - 1) = i + ?n - 1"
    using n by arith
  ultimately have last: "last ?m = c ! (i + ?n - 1)"
    by (simp only:)
  have lt: "i + ?n - 1 < length c" and pos: "0 < i + ?n"
    using n assms(2) by arith+
  show ?thesis
    unfolding word_before_def is_word_at_def last using lt pos by simp
qed

lemma alternative_matches_at:
  assumes w: "w \<in> bad_words" and i: "i \<le> length c"
    and c: "304 \<notin> set c" "305 \<notin> set c"
  shows "alternative_matches u w (word_before u c i) (drop i c) = occurs_at u c i w"
proof -
  from c have d: "304 \<notin> set (drop i c)" "305 \<notin> set (drop i c)"
    by (auto dest: in_set_dropD)
  note lit = literal_matches_same_letters [OF w d]
  show ?thesis
  proof (cases "i + length w \<le> length c")
    case False
    with i have "\<not> literal_matches w (drop i c)"
      by (auto simp: lit)
    with False show ?thesis
      by (simp add: alternative_matches_def occurs_at_def Let_def)
  next
    case True
    let ?n = "length w"
    let ?m = "take ?n (drop i c)"
    from w have n: "0 < ?n"
      by (simp add: bad_word_facts)
    from True have len: "length ?m = ?n"
      by simp
    with n have ne: "?m \<noteq> []"
      by auto
    from w True have before: "word_before u c (i + ?n) = is_word_char u (last ?m)"
      by (rule word_before_after)
    have after: "word_boundary u (is_word_char u (last ?m)) (drop ?n (drop i c)) =
        boundary_at u c (i + ?n)"
      using word_boundary_at [of "i + ?n" c u] True before by (simp add: add.commute)
    have "length w \<le> length c - i"
      using True by arith
    then have lit': "literal_matches w (drop i c) = list_all2 same_letter w ?m"
      by (simp add: lit)
    show ?thesis
      using True ne after lit' word_boundary_at [OF i, of u]
      by (auto simp: alternative_matches_def occurs_at_def Let_def)
  qed
qed

lemma match_at_no_occurrence:
  assumes "set ws = bad_words" and "i \<le> length c" and "304 \<notin> set c" and "305 \<notin> set c"
    and "\<not> starts_occurrence u c i"
  shows "match_at u ws (word_before u c i) (drop i c) = None"
  using assms by (simp add: match_at_None alternative_matches_at starts_occurrence_def)

lemma occurs_at_unique:
  assumes "w \<in> bad_words" and "w' \<in> bad_words"
    and "occurs_at u c i w" and "occurs_at u c i w'"
  shows "w = w'"
proof -
  from assms(3,4) have "list_all2 same_letter w (take (length w) (drop i c))"
    and "list_all2 same_letter w' (take (length w') (drop i c))"
    by (simp_all add: occurs_at_def)
  with assms(1,2) show ?thesis
    by (rule bad_words_same_start)
qed

lemma match_at_occurrence:
  assumes ws: "set ws = bad_words" and i: "i \<le> length c"
    and c: "304 \<notin> set c" "305 \<notin> set c"
    and w: "w \<in> bad_words" and occ: "occurs_at u c i w"
  shows "match_at u ws (word_before u c i) (drop i c) = Some (take (length w) (drop i c))"
proof -
  from ws w occ i c have "match_at u ws (word_before u c i) (drop i c) \<noteq> None"
    by (auto simp: match_at_None alternative_matches_at)
  then obtain m where m: "match_at u ws (word_before u c i) (drop i c) = Some m"
    by auto
  from match_at_Some [OF m] obtain w' where
    w': "w' \<in> set ws" "alternative_matches u w' (word_before u c i) (drop i c)"
      "m = take (length w') (drop i c)"
    by auto
  from w' ws i c have "occurs_at u c i w'"
    by (simp add: alternative_matches_at)
  with w occ w'(1) ws have "w' = w"
    using occurs_at_unique by blast
  with m w'(3) show ?thesis
    by simp
qed

lemma occurrence_chars:
  assumes "w \<in> bad_words" and "occurs_at u c i w" and "i \<le> j" and "j < i + length w"
  shows "is_word_at u c j"
proof -
  let ?m = "take (length w) (drop i c)"
  from assms have len: "i + length w \<le> length c" and low: "list_all2 same_letter w ?m"
    by (simp_all add: occurs_at_def)
  from assms(3,4) len have "?m ! (j - i) = c ! j" and "j - i < length ?m"
    by simp_all
  then have "c ! j \<in> set ?m"
    by (metis nth_mem)
  with assms(1) low have "is_word_char u (c ! j)"
    using matched_chars_word by blast
  with assms(4) len show ?thesis
    by (simp add: is_word_at_def)
qed

lemma no_occurrence_inside:
  assumes "w \<in> bad_words" and "occurs_at u c i w" and "i < j" and "j < i + length w"
  shows "\<not> occurs_at u c j w'"
proof -
  from assms have "is_word_at u c (j - 1)" and "is_word_at u c j"
    by (auto intro: occurrence_chars)
  with assms(3) have "\<not> boundary_at u c j"
    by (simp add: boundary_at_def word_before_def)
  then show ?thesis
    by (simp add: occurs_at_def)
qed

lemma pattern_sub_None:
  "s \<noteq> [] \<Longrightarrow> match_at u ws p s = None \<Longrightarrow>
     pattern_sub u ws p s = hd s # pattern_sub u ws (is_word_char u (hd s)) (tl s)"
  by (cases s) simp_all

lemma pattern_sub_Some:
  "s \<noteq> [] \<Longrightarrow> match_at u ws p s = Some m \<Longrightarrow> m \<noteq> [] \<Longrightarrow>
     pattern_sub u ws p s =
       mask @ pattern_sub u ws (is_word_char u (last m)) (drop (length m) s)"
  by (cases s) simp_all

lemma pattern_findall_None:
  "s \<noteq> [] \<Longrightarrow> match_at u ws p s = None \<Longrightarrow>
     pattern_findall u ws p s = pattern_findall u ws (is_word_char u (hd s)) (tl s)"
  by (cases s) simp_all

lemma pattern_findall_Some:
  "s \<noteq> [] \<Longrightarrow> match_at u ws p s = Some m \<Longrightarrow> m \<noteq> [] \<Longrightarrow>
     pattern_findall u ws p s =
       m # pattern_findall u ws (is_word_char u (last m)) (drop (length m) s)"
  by (cases s) simp_all

lemma not_inside_step:
  assumes "\<not> inside_occurrence u c i" and "\<not> starts_occurrence u c i"
  shows "\<not> inside_occurrence u c (Suc i)"
proof
  assume "inside_occurrence u c (Suc i)"
  then obtain j w where j: "j < Suc i" "w \<in> bad_words" "occurs_at u c j w"
      "Suc i < j + length w"
    by (auto simp: inside_occurrence_def)
  show False
  proof (cases "j = i")
    case True
    with j assms(2) show False
      by (auto simp: starts_occurrence_def)
  next
    case False
    with j have "j < i" and "i < j + length w"
      by arith+
    with j assms(1) show False
      by (auto simp: inside_occurrence_def)
  qed
qed

lemma not_inside_after:
  assumes w: "w \<in> bad_words" and occ: "occurs_at u c i w"
    and ni: "\<not> inside_occurrence u c i"
  shows "\<not> inside_occurrence u c (i + length w)"
proof
  assume "inside_occurrence u c (i + length w)"
  then obtain j w' where j: "j < i + length w" "w' \<in> bad_words" "occurs_at u c j w'"
      "i + length w < j + length w'"
    by (auto simp: inside_occurrence_def)
  consider "j < i" | "j = i" | "i < j"
    by arith
  then show False
  proof cases
    case 1
    with j have "i < j + length w'"
      by arith
    with 1 j ni show False
      by (auto simp: inside_occurrence_def)
  next
    case 2
    with j w occ have "w' = w"
      using occurs_at_unique by blast
    with 2 j show False
      by simp
  next
    case 3
    from w occ 3 j(1) have "\<not> occurs_at u c j w'"
      by (rule no_occurrence_inside)
    with j show False
      by simp
  qed
qed

lemma censored_at_occurrence:
  assumes w: "w \<in> bad_words" and occ: "occurs_at u c i w"
  shows "concat (map (censored_at u c) [i..<i + length w]) = mask"
proof -
  from w have n: "0 < length w"
    by (simp add: bad_word_facts)
  then have upt: "[i..<i + length w] = i # [Suc i..<i + length w]"
    by (simp add: upt_conv_Cons)
  from w occ have first: "censored_at u c i = mask"
    by (auto simp: censored_at_def starts_occurrence_def)
  have rest: "censored_at u c j = []" if "j \<in> set [Suc i..<i + length w]" for j
  proof -
    from that have ij: "i < j" "j < i + length w"
      by simp_all
    have "\<not> occurs_at u c j w'" for w'
      using w occ ij by (rule no_occurrence_inside)
    then have "\<not> starts_occurrence u c j"
      by (simp add: starts_occurrence_def)
    moreover have "inside_occurrence u c j"
      unfolding inside_occurrence_def
    proof (rule bexI [of _ i])
      show "\<exists>w' \<in> bad_words. occurs_at u c i w' \<and> j < i + length w'"
        using w occ ij by blast
      show "i \<in> {0..<j}"
        using ij by simp
    qed
    ultimately show ?thesis
      by (simp add: censored_at_def)
  qed
  then have "concat (map (censored_at u c) [Suc i..<i + length w]) = []"
    by (simp del: upt_Suc)
  with first upt show ?thesis
    by (simp del: upt_Suc)
qed

lemma scan_from:
  assumes ws: "set ws = bad_words" and c: "304 \<notin> set c" "305 \<notin> set c"
  shows "i \<le> length c \<Longrightarrow> \<not> inside_occurrence u c i \<Longrightarrow>
     pattern_sub u ws (word_before u c i) (drop i c) =
       concat (map (censored_at u c) [i..<length c]) \<and>
     set (map (lower u) (pattern_findall u ws (word_before u c i) (drop i c))) =
       {w \<in> bad_words. \<exists>j \<in> {i..<length c}. occurs_at u c j w}"
proof (induction "length c - i" arbitrary: i rule: less_induct)
  case less
  show ?case
  proof (cases "i < length c")
    case False
    with less.prems show ?thesis
      by simp
  next
    case True
    then have ne: "drop i c \<noteq> []"
      by simp
    from True have hd: "hd (drop i c) = c ! i"
      by (simp add: hd_drop_conv_nth)
    have tl: "tl (drop i c) = drop (Suc i) c"
      by (simp add: drop_Suc tl_drop)
    show ?thesis
    proof (cases "starts_occurrence u c i")
      case False
      with ws c less.prems have m: "match_at u ws (word_before u c i) (drop i c) = None"
        by (simp add: match_at_no_occurrence)
      from less.prems False have ni: "\<not> inside_occurrence u c (Suc i)"
        by (simp add: not_inside_step)
      from True have wb: "word_before u c (Suc i) = is_word_char u (c ! i)"
        by (simp add: word_before_def is_word_at_def)
      from True ni have IH:
        "pattern_sub u ws (word_before u c (Suc i)) (drop (Suc i) c) =
           concat (map (censored_at u c) [Suc i..<length c]) \<and>
         set (map (lower u) (pattern_findall u ws (word_before u c (Suc i)) (drop (Suc i) c))) =
           {w \<in> bad_words. \<exists>j \<in> {Suc i..<length c}. occurs_at u c j w}"
        by (intro less.hyps) simp_all
      from less.prems False have cen: "censored_at u c i = [c ! i]"
        by (simp add: censored_at_def)
      from True have upt: "[i..<length c] = i # [Suc i..<length c]"
        by (simp add: upt_conv_Cons)
      have sub: "pattern_sub u ws (word_before u c i) (drop i c) =
          c ! i # pattern_sub u ws (word_before u c (Suc i)) (drop (Suc i) c)"
        using pattern_sub_None [OF ne m] by (simp only: hd tl wb)
      have fa: "pattern_findall u ws (word_before u c i) (drop i c) =
          pattern_findall u ws (word_before u c (Suc i)) (drop (Suc i) c)"
        using pattern_findall_None [OF ne m] by (simp only: hd tl wb)
      have "(\<exists>j \<in> {i..<length c}. occurs_at u c j w) =
          (\<exists>j \<in> {Suc i..<length c}. occurs_at u c j w)"
        if "w \<in> bad_words" for w
      proof -
        from that False have "\<not> occurs_at u c i w"
          by (auto simp: starts_occurrence_def)
        moreover have "{i..<length c} = insert i {Suc i..<length c}"
          using True by auto
        ultimately show ?thesis
          by simp
      qed
      then have sets: "{w \<in> bad_words. \<exists>j \<in> {i..<length c}. occurs_at u c j w} =
          {w \<in> bad_words. \<exists>j \<in> {Suc i..<length c}. occurs_at u c j w}"
        by blast
      from IH show ?thesis
        by (simp only: sub fa sets upt cen list.map concat.simps append.simps)
    next
      case occurs: True
      then obtain w where w: "w \<in> bad_words" and occ: "occurs_at u c i w"
        by (auto simp: starts_occurrence_def)
      let ?k = "i + length w"
      let ?m = "take (length w) (drop i c)"
      from occ have k: "?k \<le> length c" and same: "list_all2 same_letter w ?m"
        by (simp_all add: occurs_at_def)
      from w same have low: "lower u ?m = w"
        by (rule occurrence_lower)
      from w have n: "0 < length w"
        by (simp add: bad_word_facts)
      from k have len: "length ?m = length w"
        by simp
      with n have mne: "?m \<noteq> []"
        by auto
      from ws less.prems c w occ
      have m: "match_at u ws (word_before u c i) (drop i c) = Some ?m"
        by (simp add: match_at_occurrence)
      from w occ less.prems have ni: "\<not> inside_occurrence u c ?k"
        by (simp add: not_inside_after)
      from w k have wb: "word_before u c ?k = is_word_char u (last ?m)"
        by (rule word_before_after)
      have dr: "drop (length ?m) (drop i c) = drop ?k c"
        by (simp only: len drop_drop add.commute)
      from n k ni have IH:
        "pattern_sub u ws (word_before u c ?k) (drop ?k c) =
           concat (map (censored_at u c) [?k..<length c]) \<and>
         set (map (lower u) (pattern_findall u ws (word_before u c ?k) (drop ?k c))) =
           {w \<in> bad_words. \<exists>j \<in> {?k..<length c}. occurs_at u c j w}"
        by (intro less.hyps) (use True in arith, simp_all)
      have sub: "pattern_sub u ws (word_before u c i) (drop i c) =
          mask @ pattern_sub u ws (word_before u c ?k) (drop ?k c)"
        using pattern_sub_Some [OF ne m mne] by (simp only: dr wb)
      have fa: "pattern_findall u ws (word_before u c i) (drop i c) =
          ?m # pattern_findall u ws (word_before u c ?k) (drop ?k c)"
        using pattern_findall_Some [OF ne m mne] by (simp only: dr wb)
      have "[i..<?k + (length c - ?k)] = [i..<?k] @ [?k..<?k + (length c - ?k)]"
        by (rule upt_add_eq_append) simp
      with k have upt: "[i..<length c] = [i..<?k] @ [?k..<length c]"
        by simp
      have cen: "concat (map (censored_at u c) [i..<length c]) =
          mask @ concat (map (censored_at u c) [?k..<length c])"
        by (simp only: upt map_append concat_append censored_at_occurrence [OF w occ])
      have "(\<exists>j \<in> {i..<length c}. occurs_at u c j w') =
          (w' = w \<or> (\<exists>j \<in> {?k..<length c}. occurs_at u c j w'))"
        if w': "w' \<in> bad_words" for w'
      proof
        assume "\<exists>j \<in> {i..<length c}. occurs_at u c j w'"
        then obtain j where j: "i \<le> j" "j < length c" "occurs_at u c j w'"
          by auto
        consider "j = i" | "i < j" "j < ?k" | "?k \<le> j"
          using j(1) by arith
        then show "w' = w \<or> (\<exists>j \<in> {?k..<length c}. occurs_at u c j w')"
        proof cases
          case 1
          with j w w' occ show ?thesis
            using occurs_at_unique by blast
        next
          case 2
          with w occ have "\<not> occurs_at u c j w'"
            by (intro no_occurrence_inside)
          with j show ?thesis
            by simp
        next
          case 3
          with j show ?thesis
            by auto
        qed
      next
        assume "w' = w \<or> (\<exists>j \<in> {?k..<length c}. occurs_at u c j w')"
        with occ True show "\<exists>j \<in> {i..<length c}. occurs_at u c j w'"
          by auto
      qed
      with w have sets: "{w' \<in> bad_words. \<exists>j \<in> {i..<length c}. occurs_at u c j w'} =
          insert w {w' \<in> bad_words. \<exists>j \<in> {?k..<length c}. occurs_at u c j w'}"
        by blast
      from IH show ?thesis
        by (simp only: sub fa sets cen list.map list.set low)
    qed
  qed
qed

text \<open>
  Apart from these two characters the censoring is as specified. On a content that
  holds neither U+0130 nor U+0131, and whatever the order in which the pattern lists the
  two words, \<open>process_message\<close> returns the content with exactly the occurrences of the
  forbidden words replaced by the mask, an occurrence being a case-insensitive match
  between two word boundaries (a forbidden word inside a longer word is not one). The
  metadata holds the number of characters of the original content and the sorted list,
  without repetition, of the forbidden words that occur in it.
\<close>

lemma process_message_censors:
  assumes "set ws = bad_words"
    and "304 \<notin> set (content (ensure_dict message))"
    and "305 \<notin> set (content (ensure_dict message))"
  shows "content (process_message u ws now message) =
           censored u (content (ensure_dict message)) \<and>
     (\<exists>md. metadata (process_message u ws now message) = Some md \<and>
        length_meta md = length (content (ensure_dict message)) \<and>
        sorted (bad_words_meta md) \<and> distinct (bad_words_meta md) \<and>
        set (bad_words_meta md) = words_found u (content (ensure_dict message)))"
proof -
  let ?c = "content (ensure_dict message)"
  have start: "\<not> inside_occurrence u ?c 0" "word_before u ?c 0 = False"
    by (simp_all add: inside_occurrence_def word_before_def)
  from scan_from [OF assms, of 0 u] start
  have sub: "pattern_sub u ws False ?c = censored u ?c"
    and found: "set (map (lower u) (pattern_findall u ws False ?c)) = words_found u ?c"
    by (simp_all add: censored_def words_found_def)
  let ?md = "\<lparr>length_meta = length ?c,
              bad_words_meta =
                sorted_list_of_set (set (map (lower u) (pattern_findall u ws False ?c)))\<rparr>"
  have "content (process_message u ws now message) = censored u ?c"
    using sub by (simp add: process_message_def Let_def)
  moreover have "metadata (process_message u ws now message) = Some ?md"
    by (simp add: process_message_def Let_def)
  moreover have "set (bad_words_meta ?md) = set (map (lower u) (pattern_findall u ws False ?c))"
    by simp
  then have "set (bad_words_meta ?md) = words_found u ?c"
    by (simp only: found)
  moreover have "sorted (bad_words_meta ?md)" and "distinct (bad_words_meta ?md)"
    by simp_all
  moreover have "length_meta ?md = length ?c"
    by simp
  ultimately show ?thesis
    by blast
qed

text \<open>
  An instance: in \<open>Tonto, tontos IDIOTA\<close> the first and the last word are censored, the
  word \<open>tontos\<close> is not, and both forbidden words are found.
\<close>

lemma process_message_censors_example:
  "censored u (str_of ''Tonto, tontos IDIOTA'') = str_of ''***, tontos ***'' \<and>
   words_found u (str_of ''Tonto, tontos IDIOTA'') = {str_of ''idiota'', str_of ''tonto''}"
proof -
  let ?ws = "[str_of ''idiota'', str_of ''tonto'']"
  let ?c = "str_of ''Tonto, tontos IDIOTA''"
  let ?m = "Dict \<lparr>message_id = ''m1'', session_id = ''s1'', content = ?c,
      timestamp = NoneValue, sender = ''user'', processed_at = NoneValue, metadata = None\<rparr>"
  have ws: "set ?ws = bad_words"
    by (auto simp: bad_words_def)
  have c: "304 \<notin> set (content (ensure_dict ?m))" "305 \<notin> set (content (ensure_dict ?m))"
    by (simp_all add: str_of_simps)
  have sub: "pattern_sub u ?ws False ?c = str_of ''***, tontos ***''"
    by (simp add: alternative_matches_def word_boundary_def literal_matches_def
        ignorecase_matches_def is_word_char_def mask_def str_of_simps)
  have fa: "pattern_findall u ?ws False ?c = [str_of ''Tonto'', str_of ''IDIOTA'']"
    by (simp add: alternative_matches_def word_boundary_def literal_matches_def
        ignorecase_matches_def is_word_char_def str_of_simps)
  have low: "lower u (str_of ''Tonto'') = str_of ''tonto''"
    "lower u (str_of ''IDIOTA'') = str_of ''idiota''"
    by (simp_all add: lower_def lower_char_def str_of_simps)
  have a: "content (process_message u ?ws now ?m) = str_of ''***, tontos ***''"
    using sub by (simp add: process_message_def Let_def del: pattern_sub.simps pattern_findall.simps)
  let ?found = "set (map (lower u) (pattern_findall u ?ws False ?c))"
  have md: "metadata (process_message u ?ws now ?m) =
      Some \<lparr>length_meta = length ?c, bad_words_meta = sorted_list_of_set ?found\<rparr>"
    by (simp add: process_message_def Let_def del: pattern_sub.simps pattern_findall.simps)
  have s1: "set (sorted_list_of_set ?found) = ?found"
    by (simp del: pattern_findall.simps)
  have s2: "?found = {str_of ''idiota'', str_of ''tonto''}"
    by (simp only: fa) (simp add: low insert_commute)
  from process_message_censors [OF ws c, of u now]
  obtain md' where cen: "content (process_message u ?ws now ?m) = censored u ?c"
    and md': "metadata (process_message u ?ws now ?m) = Some md'"
    and found: "set (bad_words_meta md') = words_found u ?c"
    by auto
  from md md' have "bad_words_meta md' = sorted_list_of_set ?found"
    by simp
  with found s1 s2 have "words_found u ?c = {str_of ''idiota'', str_of ''tonto''}"
    by (simp only:)
  moreover from cen a have "censored u ?c = str_of ''***, tontos ***''"
    by simp
  ultimately show ?thesis
    by blast
qed

end
